theory Spec2Isabelle
  imports Complex_Main "HOL-Library.Word" "HOL-Library.Sublist"
begin

unbundle bit_operations_syntax

section \<open>JavaScript strings\<close>

text \<open>
  A JavaScript string is a sequence of UTF-16 code units. \<open>lit\<close> turns an ASCII literal
  of the source into its code units.
\<close>

type_synonym code_unit = "16 word"
type_synonym jsstring = "code_unit list"

definition lit :: "string \<Rightarrow> jsstring" where
  "lit cs = map (\<lambda>c. of_nat (of_char c :: nat)) cs"

text \<open>
  \<open>String.prototype.trim\<close> removes, from both ends, the code units that ECMAScript calls
  WhiteSpace or LineTerminator: TAB, LF, VT, FF, CR, SP, NBSP, U+1680, U+2000 to U+200A,
  U+2028, U+2029, U+202F, U+205F, U+3000 and U+FEFF.
\<close>

definition is_ws :: "code_unit \<Rightarrow> bool" where
  "is_ws c \<longleftrightarrow>
     c \<in> set [0x9, 0xA, 0xB, 0xC, 0xD, 0x20, 0xA0, 0x1680, 0x2028, 0x2029, 0x202F,
               0x205F, 0x3000, 0xFEFF]
     \<or> (0x2000 \<le> c \<and> c \<le> 0x200A)"

definition trim :: "jsstring \<Rightarrow> jsstring" where
  "trim s = dropWhile is_ws (rev (dropWhile is_ws (rev s)))"

text \<open>The paragraph separator \<open>'\n\n'\<close> of \<open>handleMessage\<close>.\<close>

definition paragraph_separator :: jsstring where
  "paragraph_separator = [0xA, 0xA]"

text \<open>A string is falsy exactly when it is empty; \<open>undefined\<close> is falsy.\<close>

definition truthy :: "jsstring option \<Rightarrow> bool" where
  "truthy v = (case v of None \<Rightarrow> False | Some str \<Rightarrow> str \<noteq> [])"

section \<open>The state of the component\<close>

text \<open>
  \<open>TranscriptionStatus\<close> is imported from \<open>./types\<close>; its members are the five the two
  components use.
\<close>

datatype TranscriptionStatus = IDLE | CONNECTING | RECORDING | STOPPING | ERROR

text \<open>A capture stream is the list of its tracks; \<open>AudioContext.state\<close> is one of three.\<close>

type_synonym MediaStream = "nat list"

datatype AudioContextState = AC_suspended | AC_running | AC_closed

record Blob =
  data :: jsstring
  mimeType :: jsstring

text \<open>
  The value an error handler receives: an \<open>Error\<close> with its \<open>message\<close>, or an
  \<open>ErrorEvent\<close> with its own \<open>message\<close> (an \<open>ErrorEvent\<close> is not an instance of
  \<open>Error\<close>).
\<close>

datatype js_error = JsError jsstring | JsErrorEvent jsstring

text \<open>
  The two callbacks the components attach to the session promise with \<open>then\<close>:
  \<open>session => session?.close()\<close> and
  \<open>session => { session.sendRealtimeInput({ media: pcmBlob }) }\<close>.
\<close>

datatype reaction = CloseSession | SendRealtimeInput Blob

datatype promise_state = Pending | Fulfilled | Rejected

text \<open>
  The promise \<open>ai.live.connect\<close> returns, with the callbacks waiting on it in the order
  of their registration, and the value of \<open>status\<close> that the \<open>onclose\<close> callback of
  this connection closed over.
\<close>

record session_promise =
  pstate :: promise_state
  reactions :: "reaction list"
  closure_status :: TranscriptionStatus

text \<open>
  The calls the component makes on objects it does not define, in the order it makes
  them. A promise and the session it resolves to are named by the promise's address.
\<close>

datatype call =
    GetUserMedia
  | LiveConnect nat
  | PromiseThen nat reaction
  | SessionClose nat
  | SessionSendRealtimeInput nat Blob
  | TrackStop nat
  | NodeDisconnect
  | ContextClose
  | NewAudioContext
  | CreateMediaStreamSource
  | CreateScriptProcessor
  | NodeConnect
  | GenerateContent jsstring
  | ConsoleError

text \<open>
  The component's state: the \<open>useState\<close> values (each field holds the value the next
  render sees), the \<open>useRef\<close> cells, and the part of the JavaScript run time the
  component acts on: the store of session promises, the microtask queue and the trace of
  calls. \<open>lectureNotes\<close>, \<open>isGeneratingNotes\<close> and \<open>aiRef\<close> exist in the note-taking
  component only; the transcriber never reads or writes them. \<open>renderStatus\<close> is the
  constant \<open>status\<close> in the closure of the \<open>startTranscription\<close> call in flight: the
  status of the render that created that function.
\<close>

record app =
  status :: TranscriptionStatus
  transcription :: jsstring
  lectureNotes :: jsstring
  isGeneratingNotes :: bool
  error :: "jsstring option"
  currentTranscriptionRef :: jsstring
  aiRef :: "jsstring option"
  sessionPromiseRef :: "nat option"
  streamRef :: "MediaStream option"
  audioContextRef :: "AudioContextState option"
  scriptProcessorRef :: "unit option"
  promises :: "session_promise list"
  microtasks :: "(nat \<times> reaction) list"
  trace :: "call list"
  renderStatus :: TranscriptionStatus

definition initial :: app where
  "initial = \<lparr> status = IDLE, transcription = [], lectureNotes = [], isGeneratingNotes = False,
     error = None, currentTranscriptionRef = [], aiRef = None, sessionPromiseRef = None,
     streamRef = None, audioContextRef = None, scriptProcessorRef = None, promises = [],
     microtasks = [], trace = [], renderStatus = IDLE \<rparr>"

section \<open>Promises and microtasks\<close>

text \<open>
  \<open>promise.then(f)\<close>: on a pending promise \<open>f\<close> joins the promise's reactions; on a
  fulfilled one it becomes a microtask; on a rejected one it is never called.
\<close>

definition promise_then :: "nat \<Rightarrow> reaction \<Rightarrow> app \<Rightarrow> app" where
  "promise_then p r s =
     (let s' = s\<lparr>trace := trace s @ [PromiseThen p r]\<rparr> in
      if p < length (promises s) then
        (case pstate (promises s ! p) of
           Pending \<Rightarrow>
             s'\<lparr>promises := (promises s)[p := (promises s ! p)
                    \<lparr>reactions := reactions (promises s ! p) @ [r]\<rparr>]\<rparr>
         | Fulfilled \<Rightarrow> s'\<lparr>microtasks := microtasks s @ [(p, r)]\<rparr>
         | Rejected \<Rightarrow> s')
      else s')"

fun run_reaction :: "nat \<times> reaction \<Rightarrow> app \<Rightarrow> app" where
  "run_reaction (p, CloseSession) s = s\<lparr>trace := trace s @ [SessionClose p]\<rparr>"
| "run_reaction (p, SendRealtimeInput b) s = s\<lparr>trace := trace s @ [SessionSendRealtimeInput p b]\<rparr>"

text \<open>The microtask queue runs in order once the running handler has returned.\<close>

definition drain :: "app \<Rightarrow> app" where
  "drain s = fold run_reaction (microtasks s) (s\<lparr>microtasks := []\<rparr>)"

text \<open>
  The promise of \<open>connect\<close> fulfils: its reactions become microtasks in the order of
  their registration. (\<open>startTranscription\<close> has nothing left to do after its
  \<open>await\<close>.)
\<close>

definition session_fulfilled :: "nat \<Rightarrow> app \<Rightarrow> app" where
  "session_fulfilled p s =
     (if p < length (promises s) \<and> pstate (promises s ! p) = Pending then
        s\<lparr>promises := (promises s)[p := (promises s ! p)\<lparr>pstate := Fulfilled, reactions := []\<rparr>],
          microtasks := microtasks s @ map (Pair p) (reactions (promises s ! p))\<rparr>
      else s)"

section \<open>Releasing the resources\<close>

text \<open>
  The four guarded blocks of \<open>stopTranscription\<close>, the same text in both components.
\<close>

definition release_session :: "app \<Rightarrow> app" where
  "release_session s =
     (case sessionPromiseRef s of
        None \<Rightarrow> s
      | Some p \<Rightarrow> (promise_then p CloseSession s)\<lparr>sessionPromiseRef := None\<rparr>)"

definition release_stream :: "app \<Rightarrow> app" where
  "release_stream s =
     (case streamRef s of
        None \<Rightarrow> s
      | Some tracks \<Rightarrow> s\<lparr>trace := trace s @ map TrackStop tracks, streamRef := None\<rparr>)"

definition release_scriptProcessor :: "app \<Rightarrow> app" where
  "release_scriptProcessor s =
     (case scriptProcessorRef s of
        None \<Rightarrow> s
      | Some node \<Rightarrow> s\<lparr>trace := trace s @ [NodeDisconnect], scriptProcessorRef := None\<rparr>)"

definition release_audioContext :: "app \<Rightarrow> app" where
  "release_audioContext s =
     (case audioContextRef s of
        None \<Rightarrow> s
      | Some st \<Rightarrow>
          if st \<noteq> AC_closed
          then s\<lparr>trace := trace s @ [ContextClose], audioContextRef := None\<rparr>
          else s)"

text \<open>
  The transcriber's \<open>stopTranscription\<close> ends with
  \<open>setTranscription(prev => (prev + currentTranscriptionRef.current).trim())\<close> followed
  by \<open>currentTranscriptionRef.current = ''\<close>. The updater is queued behind the
  updaters queued before it, so its \<open>prev\<close> is the transcript at the time of the stop;
  but it reads the ref cell when React applies it, and finds there whatever the cell
  holds by then: nothing, when the update is applied after the handler has returned and
  before any other message is handled (\<open>Deferred\<close>); the buffer, when React processes
  the update inside \<open>setTranscription\<close> (\<open>Immediate\<close>); or the text of the fragments
  that were handled between the stop and the application of the update (\<open>Later\<close>).
\<close>

datatype updater_timing = Deferred | Immediate | Later jsstring

definition flush_read :: "updater_timing \<Rightarrow> jsstring \<Rightarrow> jsstring" where
  "flush_read tm buffer =
     (case tm of Deferred \<Rightarrow> [] | Immediate \<Rightarrow> buffer | Later text \<Rightarrow> text)"

definition stopTranscription :: "updater_timing \<Rightarrow> app \<Rightarrow> app" where
  "stopTranscription tm s =
     (let s1 = s\<lparr>status := STOPPING\<rparr>;
          s2 = release_session s1;
          s3 = release_stream s2;
          s4 = release_scriptProcessor s3;
          s5 = release_audioContext s4;
          s6 = (if currentTranscriptionRef s5 \<noteq> [] then
                  s5\<lparr>transcription :=
                        trim (transcription s5 @ flush_read tm (currentTranscriptionRef s5)),
                     currentTranscriptionRef := []\<rparr>
                else s5)
      in s6\<lparr>status := IDLE\<rparr>)"

definition stopTranscription_notes :: "app \<Rightarrow> app" where
  "stopTranscription_notes s =
     (let s1 = s\<lparr>status := STOPPING\<rparr>;
          s2 = release_session s1;
          s3 = release_stream s2;
          s4 = release_scriptProcessor s3;
          s5 = release_audioContext s4;
          s6 = s5\<lparr>aiRef := None\<rparr>
      in s6\<lparr>status := IDLE\<rparr>)"

section \<open>Audio frames\<close>

text \<open>
  A sample of the \<open>Float32Array\<close>. Every finite 32-bit float is a rational number, and
  its product with 32768 is exact in the double arithmetic of JavaScript (a power of two,
  far from the range limits of a double), so \<open>data[i] * 32768\<close> is the product of
  rationals; NaN and the infinities stay what they are.
\<close>

datatype js_number = Finite rat | NaN | PosInfinity | NegInfinity

definition times_32768 :: "js_number \<Rightarrow> js_number" where
  "times_32768 x =
     (case x of Finite r \<Rightarrow> Finite (r * 32768) | NaN \<Rightarrow> NaN
      | PosInfinity \<Rightarrow> PosInfinity | NegInfinity \<Rightarrow> NegInfinity)"

text \<open>
  Storing a number into an \<open>Int16Array\<close> applies ECMAScript's ToInt16: NaN and the
  infinities become 0; a finite number is truncated towards zero and reduced modulo
  \<open>2 ^ 16\<close>.
\<close>

definition js_truncate :: "rat \<Rightarrow> int" where
  "js_truncate r = (if 0 \<le> r then \<lfloor>r\<rfloor> else \<lceil>r\<rceil>)"

definition ToInt16 :: "js_number \<Rightarrow> 16 word" where
  "ToInt16 x = (case x of Finite r \<Rightarrow> word_of_int (js_truncate r) | _ \<Rightarrow> 0)"

text \<open>The loop of \<open>createBlob\<close>: \<open>for (let i = 0; i < l; i++) int16[i] = data[i] * 32768\<close>.\<close>

function createBlob_loop :: "js_number list \<Rightarrow> nat \<Rightarrow> 16 word list \<Rightarrow> 16 word list" where
  "createBlob_loop samples i int16 =
     (if i < length samples
      then createBlob_loop samples (i + 1) (int16[i := ToInt16 (times_32768 (samples ! i))])
      else int16)"
  by pat_completeness auto
termination
  by (relation "measure (\<lambda>(samples, i, int16). length samples - i)") auto

declare createBlob_loop.simps [simp del]

text \<open>
  \<open>new Uint8Array(int16.buffer)\<close> reads the same memory byte by byte. Typed arrays use
  the byte order of the platform; the platforms that run this component are
  little-endian.
\<close>

definition Uint8Array_of_Int16Array :: "16 word list \<Rightarrow> 8 word list" where
  "Uint8Array_of_Int16Array int16 = concat (map (\<lambda>w. [ucast w, ucast (drop_bit 8 w)]) int16)"

text \<open>The loop of \<open>encode\<close>: \<open>binary += String.fromCharCode(bytes[i])\<close>.\<close>

function encode_loop :: "8 word list \<Rightarrow> nat \<Rightarrow> jsstring \<Rightarrow> jsstring" where
  "encode_loop bytes i binary =
     (if i < length bytes
      then encode_loop bytes (i + 1) (binary @ [ucast (bytes ! i)])
      else binary)"
  by pat_completeness auto
termination
  by (relation "measure (\<lambda>(bytes, i, binary). length bytes - i)") auto

declare encode_loop.simps [simp del]

text \<open>
  \<open>btoa\<close> is the browser's: it throws InvalidCharacterError (here \<open>None\<close>) when a code
  unit exceeds 255, and otherwise encodes the code units as bytes in the base-64
  alphabet of RFC 4648, three bytes to four characters, padded with \<open>=\<close>.
\<close>

definition b64_char :: "nat \<Rightarrow> code_unit" where
  "b64_char n =
     (if n < 26 then of_nat (65 + n)
      else if n < 52 then of_nat (97 + (n - 26))
      else if n < 62 then of_nat (48 + (n - 52))
      else if n = 62 then 43 else 47)"

fun base64_encode :: "8 word list \<Rightarrow> jsstring" where
  "base64_encode (a # b # c # rest) =
     [b64_char (unat a div 4),
      b64_char (unat a mod 4 * 16 + unat b div 16),
      b64_char (unat b mod 16 * 4 + unat c div 64),
      b64_char (unat c mod 64)] @ base64_encode rest"
| "base64_encode [a, b] =
     [b64_char (unat a div 4),
      b64_char (unat a mod 4 * 16 + unat b div 16),
      b64_char (unat b mod 16 * 4),
      61]"
| "base64_encode [a] =
     [b64_char (unat a div 4), b64_char (unat a mod 4 * 16), 61, 61]"
| "base64_encode [] = []"

definition btoa :: "jsstring \<Rightarrow> jsstring option" where
  "btoa binary =
     (if list_all (\<lambda>c. c \<le> 0xFF) binary then Some (base64_encode (map ucast binary)) else None)"

definition encode :: "8 word list \<Rightarrow> jsstring option" where
  "encode bytes = btoa (encode_loop bytes 0 [])"

definition INPUT_SAMPLE_RATE :: jsstring where
  "INPUT_SAMPLE_RATE = lit ''16000''"

definition createBlob :: "js_number list \<Rightarrow> Blob option" where
  "createBlob samples =
     (let l = length samples;
          int16 = createBlob_loop samples 0 (replicate l 0)
      in case encode (Uint8Array_of_Int16Array int16) of
           None \<Rightarrow> None
         | Some payload \<Rightarrow>
             Some \<lparr> data = payload, mimeType = lit ''audio/pcm;rate='' @ INPUT_SAMPLE_RATE \<rparr>)"

text \<open>
  The receiver's side: the decoder of RFC 4648 base 64, which accepts the canonical
  padded encoding only.
\<close>

definition b64_value :: "code_unit \<Rightarrow> nat option" where
  "b64_value c =
     (let k = unat c in
      if 65 \<le> k \<and> k \<le> 90 then Some (k - 65)
      else if 97 \<le> k \<and> k \<le> 122 then Some (k - 71)
      else if 48 \<le> k \<and> k \<le> 57 then Some (k + 4)
      else if k = 43 then Some 62
      else if k = 47 then Some 63
      else None)"

fun base64_decode :: "jsstring \<Rightarrow> 8 word list option" where
  "base64_decode (c1 # c2 # c3 # c4 # rest) =
     (case (b64_value c1, b64_value c2) of
        (Some v1, Some v2) \<Rightarrow>
          if c3 = 61 \<and> c4 = 61 \<and> rest = [] then
            (if v2 mod 16 = 0 then Some [of_nat (v1 * 4 + v2 div 16)] else None)
          else
            (case b64_value c3 of
               None \<Rightarrow> None
             | Some v3 \<Rightarrow>
                 if c4 = 61 \<and> rest = [] then
                   (if v3 mod 4 = 0
                    then Some [of_nat (v1 * 4 + v2 div 16), of_nat (v2 mod 16 * 16 + v3 div 4)]
                    else None)
                 else
                   (case b64_value c4 of
                      None \<Rightarrow> None
                    | Some v4 \<Rightarrow>
                        map_option
                          (\<lambda>bytes. [of_nat (v1 * 4 + v2 div 16),
                                     of_nat (v2 mod 16 * 16 + v3 div 4),
                                     of_nat (v3 mod 4 * 64 + v4)] @ bytes)
                          (base64_decode rest)))
      | _ \<Rightarrow> None)"
| "base64_decode [] = Some []"
| "base64_decode _ = None"

text \<open>
  What the specification says a frame holds: each sample times 32768, truncated, wrapped
  into the signed 16-bit range (no clamping), two bytes each, low byte first. A sample
  that is not a finite number gives 0.
\<close>

definition spec_sample16 :: "js_number \<Rightarrow> int" where
  "spec_sample16 x =
     (case x of
        Finite r \<Rightarrow> (js_truncate (r * 32768) + 32768) mod 65536 - 32768
      | _ \<Rightarrow> 0)"

definition spec_little_endian :: "int \<Rightarrow> nat list" where
  "spec_little_endian n = [nat (n mod 256), nat (n div 256 mod 256)]"

definition spec_frame_bytes :: "js_number list \<Rightarrow> nat list" where
  "spec_frame_bytes samples = concat (map (\<lambda>x. spec_little_endian (spec_sample16 x)) samples)"

section \<open>Server messages\<close>

record ServerContent =
  inputTranscription :: "jsstring option"
  turnComplete :: bool

record LiveServerMessage =
  serverContent :: "ServerContent option"

text \<open>The transcriber's \<open>handleMessage\<close>.\<close>

definition handleMessage :: "LiveServerMessage \<Rightarrow> app \<Rightarrow> app" where
  "handleMessage message s =
     (let s1 = (case serverContent message of
                  None \<Rightarrow> s
                | Some content \<Rightarrow>
                    (case inputTranscription content of
                       None \<Rightarrow> s
                     | Some text \<Rightarrow>
                         s\<lparr>currentTranscriptionRef := currentTranscriptionRef s @ text,
                           transcription := transcription s @ text\<rparr>));
          s2 = (if (case serverContent message of None \<Rightarrow> False
                    | Some content \<Rightarrow> turnComplete content)
                then s1\<lparr>transcription := trim (transcription s1) @ paragraph_separator,
                        currentTranscriptionRef := []\<rparr>
                else s1)
      in s2)"

text \<open>
  The note-taking component: \<open>generateNotes\<close> up to its \<open>await\<close>, and what it does
  once the request has settled.
\<close>

definition prompt :: "jsstring \<Rightarrow> jsstring" where
  "prompt transcriptChunk =
     lit ''You are an expert note-taker. Take the following transcription from a lecture and summarize it into clean, organized, and structured lecture notes in markdown format. Focus on key points, concepts, and action items. Do not add any introductory text like ''
     @ [34] @ lit ''Here are the notes:'' @ [34]
     @ lit ''. Just provide the markdown. Here is the transcript:''
     @ [10, 10, 34] @ transcriptChunk @ [34]"

definition generateNotes :: "jsstring \<Rightarrow> app \<Rightarrow> app" where
  "generateNotes transcriptChunk s =
     (if aiRef s = None then s
      else s\<lparr>isGeneratingNotes := True,
             trace := trace s @ [GenerateContent (prompt transcriptChunk)]\<rparr>)"

definition generateNotes_settled :: "js_error + jsstring \<Rightarrow> app \<Rightarrow> app" where
  "generateNotes_settled response s =
     (let s1 = (case response of
                  Inr notesChunk \<Rightarrow>
                    s\<lparr>lectureNotes := trim (lectureNotes s @ notesChunk @ paragraph_separator)\<rparr>
                | Inl err \<Rightarrow> s\<lparr>trace := trace s @ [ConsoleError]\<rparr>)
      in s1\<lparr>isGeneratingNotes := False\<rparr>)"

definition handleMessage_notes :: "LiveServerMessage \<Rightarrow> app \<Rightarrow> app" where
  "handleMessage_notes message s =
     (let s1 = (case serverContent message of
                  None \<Rightarrow> s
                | Some content \<Rightarrow>
                    (case inputTranscription content of
                       None \<Rightarrow> s
                     | Some text \<Rightarrow>
                         s\<lparr>currentTranscriptionRef := currentTranscriptionRef s @ text,
                           transcription := transcription s @ text\<rparr>));
          s2 = (if (case serverContent message of None \<Rightarrow> False
                    | Some content \<Rightarrow> turnComplete content)
                then
                  (let textToSummarize = trim (currentTranscriptionRef s1);
                       s1' = (if textToSummarize \<noteq> [] then generateNotes textToSummarize s1
                              else s1)
                   in s1'\<lparr>transcription := trim (transcription s1') @ paragraph_separator,
                          currentTranscriptionRef := []\<rparr>)
                else s1)
      in s2)"

section \<open>Errors, start and the session callbacks\<close>

text \<open>\<open>handleError\<close>, the same text in both components; each calls its own stop.\<close>

definition error_text :: "js_error \<Rightarrow> jsstring" where
  "error_text e =
     (let errorMessage = (case e of JsError message \<Rightarrow> message
                          | JsErrorEvent event_message \<Rightarrow> lit ''An unknown error occurred.'')
      in lit ''Error: '' @ errorMessage @ lit ''. Please try again.'')"

definition handleError :: "updater_timing \<Rightarrow> js_error \<Rightarrow> app \<Rightarrow> app" where
  "handleError tm e s =
     (let s1 = s\<lparr>trace := trace s @ [ConsoleError]\<rparr>;
          s2 = s1\<lparr>error := Some (error_text e)\<rparr>
      in stopTranscription tm s2)"

definition handleError_notes :: "js_error \<Rightarrow> app \<Rightarrow> app" where
  "handleError_notes e s =
     (let s1 = s\<lparr>trace := trace s @ [ConsoleError]\<rparr>;
          s2 = s1\<lparr>error := Some (error_text e)\<rparr>
      in stopTranscription_notes s2)"

text \<open>
  What \<open>process.env.API_KEY\<close> finds: no \<open>process\<close> or no \<open>process.env\<close> (reading the
  key then throws an error with the engine's message), or an environment whose key is a
  string or \<open>undefined\<close>.
\<close>

datatype process_env = NoProcessEnv jsstring | ProcessEnv "jsstring option"

text \<open>
  The transcriber's \<open>startTranscription\<close>, cut at its two \<open>await\<close>s: up to the call of
  \<open>getUserMedia\<close>; from the settlement of \<open>getUserMedia\<close> to \<open>connect\<close>; and the
  rejection of the session promise. Every exception inside \<open>try\<close> goes to
  \<open>handleError\<close>.
\<close>

definition startTranscription :: "updater_timing \<Rightarrow> process_env \<Rightarrow> app \<Rightarrow> app" where
  "startTranscription tm env s =
     (let s1 = s\<lparr>renderStatus := status s, status := CONNECTING, error := None,
                 transcription := [], currentTranscriptionRef := []\<rparr>
      in case env of
           NoProcessEnv message \<Rightarrow> handleError tm (JsError message) s1
         | ProcessEnv key \<Rightarrow>
             if \<not> truthy key
             then handleError tm (JsError (lit ''API_KEY environment variable not set.'')) s1
             else s1\<lparr>trace := trace s1 @ [GetUserMedia]\<rparr>)"

definition connect :: "app \<Rightarrow> app" where
  "connect s =
     (let p = length (promises s);
          s1 = s\<lparr>promises := promises s @
                   [\<lparr> pstate = Pending, reactions = [], closure_status = renderStatus s \<rparr>],
                 trace := trace s @ [LiveConnect p]\<rparr>
      in s1\<lparr>sessionPromiseRef := Some p\<rparr>)"

definition startTranscription_gotUserMedia ::
    "updater_timing \<Rightarrow> js_error + MediaStream \<Rightarrow> app \<Rightarrow> app" where
  "startTranscription_gotUserMedia tm settled s =
     (case settled of
        Inl err \<Rightarrow> handleError tm err s
      | Inr stream \<Rightarrow> connect (s\<lparr>streamRef := Some stream\<rparr>))"

definition session_rejected :: "updater_timing \<Rightarrow> nat \<Rightarrow> js_error \<Rightarrow> app \<Rightarrow> app" where
  "session_rejected tm p err s =
     (if p < length (promises s) \<and> pstate (promises s ! p) = Pending then
        handleError tm err
          (s\<lparr>promises := (promises s)[p := (promises s ! p)\<lparr>pstate := Rejected, reactions := []\<rparr>]\<rparr>)
      else s)"

text \<open>The note-taking component's \<open>startTranscription\<close>, cut the same way.\<close>

definition API_KEY_missing_message :: jsstring where
  "API_KEY_missing_message =
     [0x41, 0x50, 0x49, 0x20, 0xd0a4, 0xac00, 0x20, 0xd658, 0xacbd, 0xc5d0, 0x20, 0xc124,
      0xc815, 0xb418, 0xc9c0, 0x20, 0xc54a, 0xc558, 0xc2b5, 0xb2c8, 0xb2e4, 0x2e, 0x20, 0x47,
      0x69, 0x74, 0x48, 0x75, 0x62, 0x20, 0x50, 0x61, 0x67, 0x65, 0x73, 0xc640, 0x20, 0xac19,
      0xc740, 0x20, 0xc815, 0xc801, 0x20, 0xd658, 0xacbd, 0xc5d0, 0xc11c, 0xb294, 0x20, 0x41,
      0x50, 0x49, 0x20, 0xd0a4, 0xb97c, 0x20, 0xbcc4, 0xb3c4, 0xb85c, 0x20, 0xc124, 0xc815,
      0xd574, 0xc57c, 0x20, 0xd569, 0xb2c8, 0xb2e4, 0x2e]"

definition startTranscription_notes :: "process_env \<Rightarrow> app \<Rightarrow> app" where
  "startTranscription_notes env s =
     (let s1 = s\<lparr>renderStatus := status s, status := CONNECTING, error := None,
                 transcription := [], lectureNotes := [], currentTranscriptionRef := []\<rparr>;
          apiKey = (case env of NoProcessEnv message \<Rightarrow> None | ProcessEnv key \<Rightarrow> key)
      in if \<not> truthy apiKey
         then s1\<lparr>error := Some API_KEY_missing_message, status := ERROR\<rparr>
         else s1\<lparr>aiRef := apiKey, trace := trace s1 @ [GetUserMedia]\<rparr>)"

definition startTranscription_notes_gotUserMedia :: "js_error + MediaStream \<Rightarrow> app \<Rightarrow> app" where
  "startTranscription_notes_gotUserMedia settled s =
     (case settled of
        Inl err \<Rightarrow> handleError_notes err s
      | Inr stream \<Rightarrow> connect (s\<lparr>streamRef := Some stream\<rparr>))"

definition session_rejected_notes :: "nat \<Rightarrow> js_error \<Rightarrow> app \<Rightarrow> app" where
  "session_rejected_notes p err s =
     (if p < length (promises s) \<and> pstate (promises s ! p) = Pending then
        handleError_notes err
          (s\<lparr>promises := (promises s)[p := (promises s ! p)\<lparr>pstate := Rejected, reactions := []\<rparr>]\<rparr>)
      else s)"

text \<open>
  \<open>onopen\<close>: \<open>createMediaStreamSource(streamRef.current!)\<close> throws a TypeError when the
  stream ref is null, and the rest of the callback does not run.
\<close>

definition onopen :: "app \<Rightarrow> app" where
  "onopen s =
     (let s1 = s\<lparr>status := RECORDING\<rparr>;
          s2 = s1\<lparr>audioContextRef := Some AC_running, trace := trace s1 @ [NewAudioContext]\<rparr>
      in case streamRef s2 of
           None \<Rightarrow> s2
         | Some stream \<Rightarrow>
             s2\<lparr>scriptProcessorRef := Some (),
                trace := trace s2 @ [CreateMediaStreamSource, CreateScriptProcessor,
                                     NodeConnect, NodeConnect]\<rparr>)"

text \<open>
  \<open>onaudioprocess\<close>: \<open>sessionPromiseRef.current?.then(...)\<close> does nothing on a null
  ref.
\<close>

definition onaudioprocess :: "js_number list \<Rightarrow> app \<Rightarrow> app" where
  "onaudioprocess inputData s =
     (case createBlob inputData of
        None \<Rightarrow> s
      | Some pcmBlob \<Rightarrow>
          (case sessionPromiseRef s of
             None \<Rightarrow> s
           | Some p \<Rightarrow> promise_then p (SendRealtimeInput pcmBlob) s))"

text \<open>
  \<open>onclose\<close> of the connection behind promise \<open>p\<close>. Its \<open>status\<close> is the constant the
  callback closed over when \<open>connect\<close> was called, not the component's state.
\<close>

definition onclose :: "updater_timing \<Rightarrow> nat \<Rightarrow> app \<Rightarrow> app" where
  "onclose tm p s =
     (if p < length (promises s) then
        (let closed_over = closure_status (promises s ! p) in
         if closed_over \<noteq> STOPPING \<and> closed_over \<noteq> IDLE then stopTranscription tm s else s)
      else s)"

definition onclose_notes :: "nat \<Rightarrow> app \<Rightarrow> app" where
  "onclose_notes p s =
     (if p < length (promises s) then
        (let closed_over = closure_status (promises s ! p) in
         if closed_over \<noteq> STOPPING \<and> closed_over \<noteq> IDLE then stopTranscription_notes s else s)
      else s)"

text \<open>
  \<open>ControlButton\<close>: \<open>onClick={isRecording ? stopTranscription : startTranscription}\<close>,
  disabled while connecting or stopping.
\<close>

definition ControlButton_click :: "updater_timing \<Rightarrow> process_env \<Rightarrow> app \<Rightarrow> app" where
  "ControlButton_click tm env s =
     (if status s = CONNECTING \<or> status s = STOPPING then s
      else if status s = RECORDING then stopTranscription tm s
      else startTranscription tm env s)"

definition ControlButton_click_notes :: "process_env \<Rightarrow> app \<Rightarrow> app" where
  "ControlButton_click_notes env s =
     (if status s = CONNECTING \<or> status s = STOPPING then s
      else if status s = RECORDING then stopTranscription_notes s
      else startTranscription_notes env s)"

section \<open>Runs\<close>

text \<open>
  The states a component can be in: it starts in \<open>initial\<close>, and every task (a click, the
  cleanup on unmount, the settlement of a promise, a callback of the session or of the
  audio node) runs its handler to the end and then the microtasks the handler queued.
  What the flush of a stop finds in the ref cell may differ from one stop to the next
  (\<open>tm'\<close> in the rules), so the states reachable do not depend on the first argument.
\<close>

inductive reachable :: "updater_timing \<Rightarrow> process_env \<Rightarrow> app \<Rightarrow> bool"
  for tm :: updater_timing and env :: process_env where
  r_initial: "reachable tm env initial"
| r_click: "reachable tm env s \<Longrightarrow> reachable tm env (drain (ControlButton_click tm' env s))"
| r_unmount: "reachable tm env s \<Longrightarrow> reachable tm env (drain (stopTranscription tm' s))"
| r_gotUserMedia:
    "reachable tm env s \<Longrightarrow> reachable tm env (drain (startTranscription_gotUserMedia tm' settled s))"
| r_onopen: "reachable tm env s \<Longrightarrow> reachable tm env (drain (onopen s))"
| r_fulfilled: "reachable tm env s \<Longrightarrow> reachable tm env (drain (session_fulfilled p s))"
| r_rejected: "reachable tm env s \<Longrightarrow> reachable tm env (drain (session_rejected tm' p err s))"
| r_onmessage: "reachable tm env s \<Longrightarrow> reachable tm env (drain (handleMessage message s))"
| r_onerror: "reachable tm env s \<Longrightarrow> reachable tm env (drain (handleError tm' e s))"
| r_onclose: "reachable tm env s \<Longrightarrow> reachable tm env (drain (onclose tm' p s))"
| r_onaudioprocess: "reachable tm env s \<Longrightarrow> reachable tm env (drain (onaudioprocess inputData s))"

inductive reachable_notes :: "process_env \<Rightarrow> app \<Rightarrow> bool"
  for env :: process_env where
  n_initial: "reachable_notes env initial"
| n_click: "reachable_notes env s \<Longrightarrow> reachable_notes env (drain (ControlButton_click_notes env s))"
| n_unmount: "reachable_notes env s \<Longrightarrow> reachable_notes env (drain (stopTranscription_notes s))"
| n_gotUserMedia:
    "reachable_notes env s \<Longrightarrow> reachable_notes env (drain (startTranscription_notes_gotUserMedia settled s))"
| n_onopen: "reachable_notes env s \<Longrightarrow> reachable_notes env (drain (onopen s))"
| n_fulfilled: "reachable_notes env s \<Longrightarrow> reachable_notes env (drain (session_fulfilled p s))"
| n_rejected: "reachable_notes env s \<Longrightarrow> reachable_notes env (drain (session_rejected_notes p err s))"
| n_onmessage: "reachable_notes env s \<Longrightarrow> reachable_notes env (drain (handleMessage_notes message s))"
| n_settled: "reachable_notes env s \<Longrightarrow> reachable_notes env (drain (generateNotes_settled response s))"
| n_onerror: "reachable_notes env s \<Longrightarrow> reachable_notes env (drain (handleError_notes e s))"
| n_onclose: "reachable_notes env s \<Longrightarrow> reachable_notes env (drain (onclose_notes p s))"
| n_onaudioprocess: "reachable_notes env s \<Longrightarrow> reachable_notes env (drain (onaudioprocess inputData s))"

section \<open>Notions used to state the properties\<close>

text \<open>The call a reaction makes when it runs.\<close>

fun reaction_call :: "nat \<times> reaction \<Rightarrow> call" where
  "reaction_call (p, CloseSession) = SessionClose p"
| "reaction_call (p, SendRealtimeInput b) = SessionSendRealtimeInput p b"

text \<open>
  The teardown sequence of the specification for a state: close the session, stop every
  capture track, disconnect the audio processing node, close the audio context, each
  only for a resource that is held and not yet released. The close of the session goes
  through the session promise.
\<close>

definition teardown_calls :: "app \<Rightarrow> call list" where
  "teardown_calls s =
     (case sessionPromiseRef s of None \<Rightarrow> [] | Some p \<Rightarrow> [PromiseThen p CloseSession])
     @ (case streamRef s of None \<Rightarrow> [] | Some tracks \<Rightarrow> map TrackStop tracks)
     @ (case scriptProcessorRef s of None \<Rightarrow> [] | Some node \<Rightarrow> [NodeDisconnect])
     @ (case audioContextRef s of None \<Rightarrow> []
        | Some st \<Rightarrow> if st = AC_closed then [] else [ContextClose])"

definition released :: "app \<Rightarrow> bool" where
  "released s \<longleftrightarrow>
     status s = IDLE \<and> sessionPromiseRef s = None \<and> streamRef s = None
     \<and> scriptProcessorRef s = None \<and> audioContextRef s = None"

text \<open>What every reachable state satisfies.\<close>

definition closures :: "app \<Rightarrow> TranscriptionStatus list" where
  "closures s = map closure_status (promises s)"

definition inv :: "app \<Rightarrow> bool" where
  "inv s \<longleftrightarrow>
     audioContextRef s \<noteq> Some AC_closed
     \<and> suffix (currentTranscriptionRef s) (transcription s)
     \<and> pred_option (\<lambda>p. p < length (promises s)) (sessionPromiseRef s)
     \<and> microtasks s = []"

text \<open>
  A run used as the concrete instance of the theorems: a click on the button with a key
  in the environment, a capture stream of one track, the session opened.
\<close>

definition demo_env :: process_env where
  "demo_env = ProcessEnv (Some (lit ''key''))"

definition connecting_state :: "updater_timing \<Rightarrow> app" where
  "connecting_state tm =
     drain (startTranscription_gotUserMedia tm (Inr [0])
       (drain (ControlButton_click tm demo_env initial)))"

definition recording_state :: "updater_timing \<Rightarrow> app" where
  "recording_state tm = drain (session_fulfilled 0 (drain (onopen (connecting_state tm))))"

definition connecting_state_notes :: app where
  "connecting_state_notes =
     drain (startTranscription_notes_gotUserMedia (Inr [0])
       (drain (ControlButton_click_notes demo_env initial)))"

definition recording_state_notes :: app where
  "recording_state_notes = drain (session_fulfilled 0 (drain (onopen connecting_state_notes)))"

text \<open>
  The two events of a turn: a message that carries a transcript fragment, and the
  turn-complete marker.
\<close>

definition fragment :: "jsstring \<Rightarrow> LiveServerMessage" where
  "fragment text =
     \<lparr> serverContent = Some \<lparr> inputTranscription = Some text, turnComplete = False \<rparr> \<rparr>"

definition turn_complete_event :: LiveServerMessage where
  "turn_complete_event =
     \<lparr> serverContent = Some \<lparr> inputTranscription = None, turnComplete = True \<rparr> \<rparr>"

text \<open>The demonstration run after a first turn with the one fragment \<open>a\<close>.\<close>

definition first_turn_state :: app where
  "first_turn_state =
     fold handleMessage [fragment (lit ''a''), turn_complete_event] (recording_state Deferred)"

definition first_turn_state_notes :: app where
  "first_turn_state_notes =
     fold handleMessage_notes [fragment (lit ''a''), turn_complete_event] recording_state_notes"

text \<open>What a message carries, and when two states differ in the notes machinery only.\<close>

definition message_text :: "LiveServerMessage \<Rightarrow> jsstring" where
  "message_text message =
     (case serverContent message of
        None \<Rightarrow> []
      | Some content \<Rightarrow> (case inputTranscription content of None \<Rightarrow> [] | Some text \<Rightarrow> text))"

definition message_turnComplete :: "LiveServerMessage \<Rightarrow> bool" where
  "message_turnComplete message =
     (case serverContent message of None \<Rightarrow> False | Some content \<Rightarrow> turnComplete content)"

definition agree_up_to_notes :: "app \<Rightarrow> app \<Rightarrow> bool" where
  "agree_up_to_notes a b \<longleftrightarrow>
     a\<lparr>isGeneratingNotes := False, trace := []\<rparr> = b\<lparr>isGeneratingNotes := False, trace := []\<rparr>"

text \<open>The calls that acquire a capture device or create a session.\<close>

fun acquires :: "call \<Rightarrow> bool" where
  "acquires GetUserMedia = True"
| "acquires (LiveConnect p) = True"
| "acquires c = False"

text \<open>
  What every reachable state of the transcriber satisfies besides: its status is never
  Error, and every \<open>onclose\<close> callback closed over the status Idle.
\<close>

definition inv_transcriber :: "app \<Rightarrow> bool" where
  "inv_transcriber s \<longleftrightarrow>
     status s \<noteq> ERROR \<and> renderStatus s = IDLE \<and> list_all (\<lambda>st. st = IDLE) (closures s)"

text \<open>The demonstration run with the fragment \<open>hi\<close> received and its turn not yet complete.\<close>

definition partial_turn_state :: "updater_timing \<Rightarrow> app" where
  "partial_turn_state tm = drain (handleMessage (fragment (lit ''hi'')) (recording_state tm))"

definition partial_turn_state_notes :: app where
  "partial_turn_state_notes = drain (handleMessage_notes (fragment (lit ''hi'')) recording_state_notes)"

text \<open>
  One task of the audio node: the \<open>onaudioprocess\<close> callback and the microtasks it
  queued. The frames sent to a session so far, and the frames waiting on its promise.
\<close>

definition audio_task :: "js_number list \<Rightarrow> app \<Rightarrow> app" where
  "audio_task inputData s = drain (onaudioprocess inputData s)"

definition pcmBlob_of :: "js_number list \<Rightarrow> Blob" where
  "pcmBlob_of inputData = the (createBlob inputData)"

fun sent_frame :: "call \<Rightarrow> Blob list" where
  "sent_frame (SessionSendRealtimeInput p b) = [b]"
| "sent_frame c = []"

definition sent_frames :: "call list \<Rightarrow> Blob list" where
  "sent_frames calls = concat (map sent_frame calls)"

fun queued_frame :: "reaction \<Rightarrow> Blob list" where
  "queued_frame (SendRealtimeInput b) = [b]"
| "queued_frame CloseSession = []"

definition queued_frames :: "reaction list \<Rightarrow> Blob list" where
  "queued_frames rs = concat (map queued_frame rs)"

definition holds_session :: "nat \<Rightarrow> promise_state \<Rightarrow> app \<Rightarrow> bool" where
  "holds_session p st s \<longleftrightarrow>
     sessionPromiseRef s = Some p \<and> p < length (promises s) \<and> pstate (promises s ! p) = st
     \<and> microtasks s = []"

section \<open>Trimming\<close>

lemma trim_Nil: "trim [] = []"
  by (simp add: trim_def)

lemma trim_append_ws: "list_all is_ws ws \<Longrightarrow> trim (xs @ ws) = trim xs"
proof -
  assume "list_all is_ws ws"
  then have "dropWhile is_ws (rev ws @ rev xs) = dropWhile is_ws (rev xs)"
    by (intro dropWhile_append2) (simp add: list_all_iff)
  then show ?thesis by (simp add: trim_def)
qed

lemma dropWhile_last: "dropWhile P xs \<noteq> [] \<Longrightarrow> last (dropWhile P xs) = last xs"
  by (induction xs) (auto split: if_splits)

lemma rtrim_last: "rev (dropWhile is_ws (rev xs)) \<noteq> [] \<Longrightarrow> \<not> is_ws (last (rev (dropWhile is_ws (rev xs))))"
  by (metis Nil_is_rev_conv hd_dropWhile last_rev)

lemma trim_last: "trim xs \<noteq> [] \<Longrightarrow> \<not> is_ws (last (trim xs))"
  unfolding trim_def
  by (metis dropWhile.simps(1) dropWhile_last rtrim_last)

lemma trim_hd: "trim xs \<noteq> [] \<Longrightarrow> \<not> is_ws (hd (trim xs))"
  unfolding trim_def by (rule hd_dropWhile)

lemma dropWhile_id_hd: "xs \<noteq> [] \<Longrightarrow> \<not> P (hd xs) \<Longrightarrow> dropWhile P xs = xs"
  by (cases xs) auto

lemma trim_idem: "trim (trim xs) = trim xs"
proof (cases "trim xs = []")
  case True
  then show ?thesis by (simp add: trim_Nil)
next
  case False
  have "dropWhile is_ws (rev (trim xs)) = rev (trim xs)"
    using False trim_last [OF False] by (intro dropWhile_id_hd) (simp_all add: hd_rev)
  moreover have "dropWhile is_ws (trim xs) = trim xs"
    using False trim_hd [OF False] by (intro dropWhile_id_hd)
  ultimately show ?thesis by (simp add: trim_def [of "trim xs"])
qed

lemma is_ws_LF: "is_ws 0xA"
  by (simp add: is_ws_def)

lemma trim_separator: "trim (trim xs @ paragraph_separator) = trim xs"
  by (simp add: trim_append_ws paragraph_separator_def is_ws_LF trim_idem)

lemma suffix_dropWhile: "suffix (dropWhile P xs) xs"
  by (metis suffixI takeWhile_dropWhile_id)

lemma rtrim_append:
  "rev (dropWhile P (rev (x @ b))) =
     (if list_all P b then rev (dropWhile P (rev x)) else x @ rev (dropWhile P (rev b)))"
  by (induction b rule: rev_induct) (auto simp: dropWhile_append list_all_iff)

lemma dropWhile_suffix_mono:
  "suffix ys xs \<Longrightarrow> suffix (dropWhile P ys) (dropWhile P xs)"
proof -
  assume "suffix ys xs"
  then obtain zs where xs: "xs = zs @ ys" by (auto simp: suffix_def)
  show ?thesis
  proof (cases "list_all P zs")
    case True
    then have "dropWhile P xs = dropWhile P ys"
      unfolding xs by (intro dropWhile_append2) (simp add: list_all_iff)
    then show ?thesis by simp
  next
    case False
    then obtain z where z: "z \<in> set zs" "\<not> P z" by (auto simp: list_all_iff)
    then have "dropWhile P xs = dropWhile P zs @ ys"
      unfolding xs by (intro dropWhile_append1)
    then have "suffix ys (dropWhile P xs)" by (simp add: suffix_def)
    then show ?thesis using suffix_dropWhile suffix_order.trans by blast
  qed
qed

lemma suffix_trim: "suffix b t \<Longrightarrow> suffix (trim b) (trim t)"
proof -
  assume "suffix b t"
  then obtain x where t: "t = x @ b" by (auto simp: suffix_def)
  have "suffix (rev (dropWhile is_ws (rev b))) (rev (dropWhile is_ws (rev t)))"
  proof (cases "list_all is_ws b")
    case True
    then have "\<forall>c\<in>set (rev b). is_ws c" by (simp add: list_all_iff)
    then have "rev (dropWhile is_ws (rev b)) = []"
      by (simp only: dropWhile_eq_Nil_conv [THEN iffD2] rev.simps)
    then show ?thesis by (simp only: Nil_suffix)
  next
    case False
    then have "rev (dropWhile is_ws (rev (x @ b))) = x @ rev (dropWhile is_ws (rev b))"
      by (simp only: rtrim_append if_False)
    then show ?thesis unfolding t by (simp only: suffix_def) blast
  qed
  then show ?thesis unfolding trim_def by (rule dropWhile_suffix_mono)
qed

lemma trim_sublist: "\<exists>l r. b = l @ trim b @ r"
proof -
  let ?rt = "rev (dropWhile is_ws (rev b))"
  have "?rt @ rev (takeWhile is_ws (rev b))
      = rev (takeWhile is_ws (rev b) @ dropWhile is_ws (rev b))"
    by (simp only: rev_append)
  also have "\<dots> = b"
    by (simp only: takeWhile_dropWhile_id rev_rev_ident)
  finally have b: "b = ?rt @ rev (takeWhile is_ws (rev b))" by (rule sym)
  have "?rt = takeWhile is_ws ?rt @ trim b" by (simp add: trim_def)
  with b have "b = takeWhile is_ws ?rt @ trim b @ rev (takeWhile is_ws (rev b))"
    by (metis append.assoc)
  then show ?thesis by blast
qed

lemma rtrim_keeps:
  assumes "c \<noteq> []" and "\<not> is_ws (last c)"
  shows "\<exists>q'. rev (dropWhile is_ws (rev (p @ c @ q))) = p @ c @ q'"
proof (cases "list_all is_ws q")
  case True
  have "dropWhile is_ws (rev (p @ c)) = rev (p @ c)"
    using assms by (intro dropWhile_id_hd) (simp_all add: hd_rev)
  then have "rev (dropWhile is_ws (rev ((p @ c) @ q))) = p @ c @ []"
    using True by (simp only: rtrim_append if_True) simp
  then show ?thesis by (metis append.assoc)
next
  case False
  then have "rev (dropWhile is_ws (rev ((p @ c) @ q))) = (p @ c) @ rev (dropWhile is_ws (rev q))"
    by (simp only: rtrim_append if_False)
  then show ?thesis by (metis append.assoc)
qed

lemma ltrim_keeps:
  assumes "c \<noteq> []" and "\<not> is_ws (hd c)"
  shows "\<exists>p'. dropWhile is_ws (p @ c @ q) = p' @ c @ q"
proof (cases "list_all is_ws p")
  case True
  then have "dropWhile is_ws (p @ c @ q) = dropWhile is_ws (c @ q)"
    by (intro dropWhile_append2) (simp add: list_all_iff)
  also have "\<dots> = c @ q"
    using assms by (intro dropWhile_id_hd) simp_all
  finally have "dropWhile is_ws (p @ c @ q) = [] @ c @ q" by simp
  then show ?thesis by blast
next
  case False
  then obtain z where "z \<in> set p" "\<not> is_ws z" by (auto simp: list_all_iff)
  then have "dropWhile is_ws (p @ c @ q) = dropWhile is_ws p @ c @ q"
    by (intro dropWhile_append1)
  then show ?thesis by blast
qed

lemma sublist_trim: "sublist b t \<Longrightarrow> sublist (trim b) (trim t)"
proof (cases "trim b = []")
  case True
  then show ?thesis by simp
next
  case False
  assume "sublist b t"
  then obtain p q where t: "t = p @ b @ q" by (auto simp: sublist_def)
  obtain l r where b: "b = l @ trim b @ r" using trim_sublist by blast
  define c where "c = trim b"
  have c: "c \<noteq> []" "\<not> is_ws (hd c)" "\<not> is_ws (last c)"
    using False trim_hd [OF False] trim_last [OF False] by (simp_all add: c_def)
  have "t = p @ (l @ c @ r) @ q" unfolding t c_def by (subst b) (rule refl)
  then have whole: "t = (p @ l) @ c @ (r @ q)" by simp
  obtain q' where right: "rev (dropWhile is_ws (rev t)) = (p @ l) @ c @ q'"
    unfolding whole using rtrim_keeps [OF c(1,3)] by blast
  obtain p' where left: "dropWhile is_ws ((p @ l) @ c @ q') = p' @ c @ q'"
    using ltrim_keeps [OF c(1,2)] by blast
  have "trim t = dropWhile is_ws (rev (dropWhile is_ws (rev t)))" by (fact trim_def)
  also have "\<dots> = p' @ c @ q'" by (simp only: right left)
  finally show ?thesis unfolding sublist_def c_def by blast
qed

section \<open>Microtasks and the release steps\<close>

lemma fold_run_reaction:
  "fold run_reaction ms s = s\<lparr>trace := trace s @ map reaction_call ms\<rparr>"
proof (induction ms arbitrary: s)
  case Nil
  show ?case by simp
next
  case (Cons m ms)
  obtain p r where m: "m = (p, r)" by (cases m)
  show ?case by (cases r) (simp_all add: m Cons.IH)
qed

lemma drain_eq:
  "drain s = s\<lparr>microtasks := [], trace := trace s @ map reaction_call (microtasks s)\<rparr>"
  by (simp add: drain_def fold_run_reaction)

lemma promise_then_fields:
  "status (promise_then p r s) = status s"
  "transcription (promise_then p r s) = transcription s"
  "lectureNotes (promise_then p r s) = lectureNotes s"
  "isGeneratingNotes (promise_then p r s) = isGeneratingNotes s"
  "error (promise_then p r s) = error s"
  "currentTranscriptionRef (promise_then p r s) = currentTranscriptionRef s"
  "aiRef (promise_then p r s) = aiRef s"
  "sessionPromiseRef (promise_then p r s) = sessionPromiseRef s"
  "streamRef (promise_then p r s) = streamRef s"
  "audioContextRef (promise_then p r s) = audioContextRef s"
  "scriptProcessorRef (promise_then p r s) = scriptProcessorRef s"
  "renderStatus (promise_then p r s) = renderStatus s"
  "trace (promise_then p r s) = trace s @ [PromiseThen p r]"
  "length (promises (promise_then p r s)) = length (promises s)"
  by (simp_all add: promise_then_def Let_def split: promise_state.splits)

lemma release_session_fields:
  "status (release_session s) = status s"
  "transcription (release_session s) = transcription s"
  "lectureNotes (release_session s) = lectureNotes s"
  "isGeneratingNotes (release_session s) = isGeneratingNotes s"
  "error (release_session s) = error s"
  "currentTranscriptionRef (release_session s) = currentTranscriptionRef s"
  "aiRef (release_session s) = aiRef s"
  "streamRef (release_session s) = streamRef s"
  "audioContextRef (release_session s) = audioContextRef s"
  "scriptProcessorRef (release_session s) = scriptProcessorRef s"
  "renderStatus (release_session s) = renderStatus s"
  "sessionPromiseRef (release_session s) = None"
  "trace (release_session s) = trace s @
     (case sessionPromiseRef s of None \<Rightarrow> [] | Some p \<Rightarrow> [PromiseThen p CloseSession])"
  "length (promises (release_session s)) = length (promises s)"
  by (simp_all add: release_session_def promise_then_fields split: option.splits)

lemma release_stream_fields:
  "status (release_stream s) = status s"
  "transcription (release_stream s) = transcription s"
  "lectureNotes (release_stream s) = lectureNotes s"
  "isGeneratingNotes (release_stream s) = isGeneratingNotes s"
  "error (release_stream s) = error s"
  "currentTranscriptionRef (release_stream s) = currentTranscriptionRef s"
  "aiRef (release_stream s) = aiRef s"
  "sessionPromiseRef (release_stream s) = sessionPromiseRef s"
  "audioContextRef (release_stream s) = audioContextRef s"
  "scriptProcessorRef (release_stream s) = scriptProcessorRef s"
  "promises (release_stream s) = promises s"
  "microtasks (release_stream s) = microtasks s"
  "renderStatus (release_stream s) = renderStatus s"
  "streamRef (release_stream s) = None"
  "trace (release_stream s) = trace s @
     (case streamRef s of None \<Rightarrow> [] | Some tracks \<Rightarrow> map TrackStop tracks)"
  by (simp_all add: release_stream_def split: option.splits)

lemma release_scriptProcessor_fields:
  "status (release_scriptProcessor s) = status s"
  "transcription (release_scriptProcessor s) = transcription s"
  "lectureNotes (release_scriptProcessor s) = lectureNotes s"
  "isGeneratingNotes (release_scriptProcessor s) = isGeneratingNotes s"
  "error (release_scriptProcessor s) = error s"
  "currentTranscriptionRef (release_scriptProcessor s) = currentTranscriptionRef s"
  "aiRef (release_scriptProcessor s) = aiRef s"
  "sessionPromiseRef (release_scriptProcessor s) = sessionPromiseRef s"
  "streamRef (release_scriptProcessor s) = streamRef s"
  "audioContextRef (release_scriptProcessor s) = audioContextRef s"
  "promises (release_scriptProcessor s) = promises s"
  "microtasks (release_scriptProcessor s) = microtasks s"
  "renderStatus (release_scriptProcessor s) = renderStatus s"
  "scriptProcessorRef (release_scriptProcessor s) = None"
  "trace (release_scriptProcessor s) = trace s @
     (case scriptProcessorRef s of None \<Rightarrow> [] | Some node \<Rightarrow> [NodeDisconnect])"
  by (simp_all add: release_scriptProcessor_def split: option.splits)

lemma release_audioContext_fields:
  "status (release_audioContext s) = status s"
  "transcription (release_audioContext s) = transcription s"
  "lectureNotes (release_audioContext s) = lectureNotes s"
  "isGeneratingNotes (release_audioContext s) = isGeneratingNotes s"
  "error (release_audioContext s) = error s"
  "currentTranscriptionRef (release_audioContext s) = currentTranscriptionRef s"
  "aiRef (release_audioContext s) = aiRef s"
  "sessionPromiseRef (release_audioContext s) = sessionPromiseRef s"
  "streamRef (release_audioContext s) = streamRef s"
  "scriptProcessorRef (release_audioContext s) = scriptProcessorRef s"
  "promises (release_audioContext s) = promises s"
  "microtasks (release_audioContext s) = microtasks s"
  "renderStatus (release_audioContext s) = renderStatus s"
  "audioContextRef (release_audioContext s) =
     (if audioContextRef s = Some AC_closed then Some AC_closed else None)"
  "trace (release_audioContext s) = trace s @
     (case audioContextRef s of None \<Rightarrow> []
      | Some st \<Rightarrow> if st = AC_closed then [] else [ContextClose])"
  by (simp_all add: release_audioContext_def split: option.splits)

lemmas release_fields = release_session_fields release_stream_fields
  release_scriptProcessor_fields release_audioContext_fields

lemma stop_refs:
  "status (stopTranscription tm s) = IDLE"
  "sessionPromiseRef (stopTranscription tm s) = None"
  "streamRef (stopTranscription tm s) = None"
  "scriptProcessorRef (stopTranscription tm s) = None"
  "audioContextRef (stopTranscription tm s) =
     (if audioContextRef s = Some AC_closed then Some AC_closed else None)"
  "trace (stopTranscription tm s) = trace s @ teardown_calls s"
  "currentTranscriptionRef (stopTranscription tm s) = []"
  by (simp_all add: stopTranscription_def Let_def release_fields teardown_calls_def)

lemma stop_notes_refs:
  "status (stopTranscription_notes s) = IDLE"
  "sessionPromiseRef (stopTranscription_notes s) = None"
  "streamRef (stopTranscription_notes s) = None"
  "scriptProcessorRef (stopTranscription_notes s) = None"
  "audioContextRef (stopTranscription_notes s) =
     (if audioContextRef s = Some AC_closed then Some AC_closed else None)"
  "trace (stopTranscription_notes s) = trace s @ teardown_calls s"
  "aiRef (stopTranscription_notes s) = None"
  by (simp_all add: stopTranscription_notes_def Let_def release_fields teardown_calls_def)

lemma release_session_None: "sessionPromiseRef s = None \<Longrightarrow> release_session s = s"
  by (simp add: release_session_def)

lemma release_stream_None: "streamRef s = None \<Longrightarrow> release_stream s = s"
  by (simp add: release_stream_def)

lemma release_scriptProcessor_None: "scriptProcessorRef s = None \<Longrightarrow> release_scriptProcessor s = s"
  by (simp add: release_scriptProcessor_def)

lemma release_audioContext_None: "audioContextRef s \<noteq> Some AC_running \<Longrightarrow> audioContextRef s \<noteq> Some AC_suspended \<Longrightarrow> release_audioContext s = s"
proof (cases "audioContextRef s")
  case None
  then show ?thesis by (simp add: release_audioContext_def)
next
  case (Some st)
  assume "audioContextRef s \<noteq> Some AC_running" "audioContextRef s \<noteq> Some AC_suspended"
  with Some have "st = AC_closed" by (cases st) simp_all
  with Some show ?thesis by (simp add: release_audioContext_def)
qed

lemma released_audioContext:
  "audioContextRef (release_audioContext s) \<noteq> Some AC_running"
  "audioContextRef (release_audioContext s) \<noteq> Some AC_suspended"
  by (simp_all add: release_audioContext_fields)

lemma stop_released:
  assumes "sessionPromiseRef x = None" "streamRef x = None" "scriptProcessorRef x = None"
    and "audioContextRef x \<noteq> Some AC_running" "audioContextRef x \<noteq> Some AC_suspended"
    and "currentTranscriptionRef x = []"
  shows "stopTranscription tm x = x\<lparr>status := IDLE\<rparr>"
  using assms
  by (simp add: stopTranscription_def Let_def release_session_None release_stream_None
      release_scriptProcessor_None release_audioContext_None)

lemma stop_notes_released:
  assumes "sessionPromiseRef x = None" "streamRef x = None" "scriptProcessorRef x = None"
    and "audioContextRef x \<noteq> Some AC_running" "audioContextRef x \<noteq> Some AC_suspended"
  shows "stopTranscription_notes x = x\<lparr>aiRef := None, status := IDLE\<rparr>"
  using assms
  by (simp add: stopTranscription_notes_def Let_def release_session_None release_stream_None
      release_scriptProcessor_None release_audioContext_None)

lemma stop_idem: "stopTranscription tm (stopTranscription tm s) = stopTranscription tm s"
proof -
  have "stopTranscription tm (stopTranscription tm s) = (stopTranscription tm s)\<lparr>status := IDLE\<rparr>"
    by (rule stop_released) (simp_all add: stop_refs)
  also have "\<dots> = stopTranscription tm s"
    using stop_refs(1) [of tm s] by simp
  finally show ?thesis .
qed

lemma stop_notes_idem:
  "stopTranscription_notes (stopTranscription_notes s) = stopTranscription_notes s"
proof -
  have "stopTranscription_notes (stopTranscription_notes s)
      = (stopTranscription_notes s)\<lparr>aiRef := None, status := IDLE\<rparr>"
    by (rule stop_notes_released) (simp_all add: stop_notes_refs)
  also have "\<dots> = stopTranscription_notes s"
    using stop_notes_refs(1,7) [of s] by simp
  finally show ?thesis .
qed

section \<open>The invariant of the runs\<close>

lemma closures_update:
  "p < length ps \<Longrightarrow> closure_status q = closure_status (ps ! p) \<Longrightarrow>
   map closure_status (ps[p := q]) = map closure_status ps"
  by (simp add: map_update list_update_same_conv)

lemma closures_promise_then: "closures (promise_then p r s) = closures s"
  by (simp add: closures_def promise_then_def Let_def closures_update split: promise_state.splits)

lemma closures_release_session: "closures (release_session s) = closures s"
  by (simp add: release_session_def closures_promise_then [unfolded closures_def] closures_def
      split: option.splits)

lemma closures_stop: "closures (stopTranscription tm s) = closures s"
  by (simp add: closures_def stopTranscription_def Let_def release_fields
      closures_release_session [unfolded closures_def])

lemma closures_stop_notes: "closures (stopTranscription_notes s) = closures s"
  by (simp add: closures_def stopTranscription_notes_def Let_def release_fields
      closures_release_session [unfolded closures_def])

lemma stop_keeps:
  "lectureNotes (stopTranscription tm s) = lectureNotes s"
  "isGeneratingNotes (stopTranscription tm s) = isGeneratingNotes s"
  "error (stopTranscription tm s) = error s"
  "aiRef (stopTranscription tm s) = aiRef s"
  "renderStatus (stopTranscription tm s) = renderStatus s"
  "length (promises (stopTranscription tm s)) = length (promises s)"
  by (simp_all add: stopTranscription_def Let_def release_fields)

lemma stop_notes_keeps:
  "lectureNotes (stopTranscription_notes s) = lectureNotes s"
  "isGeneratingNotes (stopTranscription_notes s) = isGeneratingNotes s"
  "error (stopTranscription_notes s) = error s"
  "transcription (stopTranscription_notes s) = transcription s"
  "currentTranscriptionRef (stopTranscription_notes s) = currentTranscriptionRef s"
  "renderStatus (stopTranscription_notes s) = renderStatus s"
  "length (promises (stopTranscription_notes s)) = length (promises s)"
  by (simp_all add: stopTranscription_notes_def Let_def release_fields)

lemma stop_transcription:
  "transcription (stopTranscription tm s) =
     (if currentTranscriptionRef s = [] then transcription s
      else trim (transcription s @ flush_read tm (currentTranscriptionRef s)))"
  by (simp add: stopTranscription_def Let_def release_fields)

lemma inv_drain_iff:
  "inv (drain s) \<longleftrightarrow>
     audioContextRef s \<noteq> Some AC_closed
     \<and> suffix (currentTranscriptionRef s) (transcription s)
     \<and> pred_option (\<lambda>p. p < length (promises s)) (sessionPromiseRef s)"
  by (simp add: inv_def drain_eq)

lemma inv_stop: "inv s \<Longrightarrow> inv (drain (stopTranscription tm s))"
  unfolding inv_drain_iff by (simp add: stop_refs inv_def)

lemma inv_stop_notes: "inv s \<Longrightarrow> inv (drain (stopTranscription_notes s))"
  unfolding inv_drain_iff by (simp add: stop_notes_refs stop_notes_keeps inv_def)

lemma inv_handleError: "inv s \<Longrightarrow> inv (drain (handleError tm e s))"
  unfolding inv_drain_iff by (simp add: handleError_def Let_def stop_refs inv_def)

lemma inv_handleError_notes: "inv s \<Longrightarrow> inv (drain (handleError_notes e s))"
  unfolding inv_drain_iff by (simp add: handleError_notes_def Let_def stop_notes_refs stop_notes_keeps inv_def)

lemma inv_connect:
  "audioContextRef s \<noteq> Some AC_closed \<Longrightarrow> suffix (currentTranscriptionRef s) (transcription s)
   \<Longrightarrow> inv (drain (connect s))"
  unfolding inv_drain_iff by (simp add: connect_def Let_def)

lemma inv_start: "inv s \<Longrightarrow> inv (drain (startTranscription tm env s))"
  unfolding inv_drain_iff by (simp add: startTranscription_def handleError_def Let_def stop_refs inv_def
      split: process_env.splits)

lemma inv_start_notes: "inv s \<Longrightarrow> inv (drain (startTranscription_notes env s))"
  unfolding inv_drain_iff by (simp add: startTranscription_notes_def Let_def inv_def)

lemma inv_click: "inv s \<Longrightarrow> inv (drain (ControlButton_click tm env s))"
  by (simp add: ControlButton_click_def inv_start inv_stop) (simp add: inv_drain_iff, simp add: inv_def)

lemma inv_click_notes: "inv s \<Longrightarrow> inv (drain (ControlButton_click_notes env s))"
  by (simp add: ControlButton_click_notes_def inv_start_notes inv_stop_notes) (simp add: inv_drain_iff, simp add: inv_def)

lemma inv_gotUserMedia: "inv s \<Longrightarrow> inv (drain (startTranscription_gotUserMedia tm settled s))"
proof (cases settled)
  case (Inl err)
  assume "inv s"
  then show ?thesis by (simp add: Inl startTranscription_gotUserMedia_def inv_handleError)
next
  case (Inr stream)
  assume "inv s"
  then have "inv (drain (connect (s\<lparr>streamRef := Some stream\<rparr>)))"
    by (intro inv_connect) (simp_all add: inv_def)
  then show ?thesis by (simp add: Inr startTranscription_gotUserMedia_def)
qed

lemma inv_gotUserMedia_notes: "inv s \<Longrightarrow> inv (drain (startTranscription_notes_gotUserMedia settled s))"
proof (cases settled)
  case (Inl err)
  assume "inv s"
  then show ?thesis by (simp add: Inl startTranscription_notes_gotUserMedia_def inv_handleError_notes)
next
  case (Inr stream)
  assume "inv s"
  then have "inv (drain (connect (s\<lparr>streamRef := Some stream\<rparr>)))"
    by (intro inv_connect) (simp_all add: inv_def)
  then show ?thesis by (simp add: Inr startTranscription_notes_gotUserMedia_def)
qed

lemma inv_onopen: "inv s \<Longrightarrow> inv (drain (onopen s))"
  unfolding inv_drain_iff by (simp add: onopen_def Let_def inv_def split: option.splits)

lemma inv_fulfilled: "inv s \<Longrightarrow> inv (drain (session_fulfilled p s))"
  unfolding inv_drain_iff by (simp add: session_fulfilled_def inv_def)

lemma inv_rejected: "inv s \<Longrightarrow> inv (drain (session_rejected tm p err s))"
proof (cases "p < length (promises s) \<and> pstate (promises s ! p) = Pending")
  case True
  assume "inv s"
  then have "inv (s\<lparr>promises := (promises s)[p := (promises s ! p)\<lparr>pstate := Rejected, reactions := []\<rparr>]\<rparr>)"
    by (simp add: inv_def)
  then show ?thesis using True by (simp add: session_rejected_def inv_handleError)
next
  case False
  assume "inv s"
  then have "inv (drain s)" unfolding inv_drain_iff by (simp add: inv_def)
  then show ?thesis using False by (auto simp add: session_rejected_def)
qed

lemma inv_idle_task: "inv s \<Longrightarrow> inv (drain s)"
  unfolding inv_drain_iff by (simp add: inv_def)

lemma inv_rejected_notes: "inv s \<Longrightarrow> inv (drain (session_rejected_notes p err s))"
proof (cases "p < length (promises s) \<and> pstate (promises s ! p) = Pending")
  case True
  assume "inv s"
  then have "inv (s\<lparr>promises := (promises s)[p := (promises s ! p)\<lparr>pstate := Rejected, reactions := []\<rparr>]\<rparr>)"
    by (simp add: inv_def)
  then show ?thesis using True by (simp add: session_rejected_notes_def inv_handleError_notes)
next
  case False
  assume "inv s"
  then show ?thesis using False by (auto simp add: session_rejected_notes_def inv_idle_task)
qed

lemma handleMessage_fields:
  "audioContextRef (handleMessage m s) = audioContextRef s"
  "sessionPromiseRef (handleMessage m s) = sessionPromiseRef s"
  "promises (handleMessage m s) = promises s"
  "status (handleMessage m s) = status s"
  "renderStatus (handleMessage m s) = renderStatus s"
  by (simp_all add: handleMessage_def Let_def split: option.splits)

lemma generateNotes_fields:
  "audioContextRef (generateNotes c s) = audioContextRef s"
  "sessionPromiseRef (generateNotes c s) = sessionPromiseRef s"
  "promises (generateNotes c s) = promises s"
  "transcription (generateNotes c s) = transcription s"
  "currentTranscriptionRef (generateNotes c s) = currentTranscriptionRef s"
  "status (generateNotes c s) = status s"
  "error (generateNotes c s) = error s"
  "streamRef (generateNotes c s) = streamRef s"
  "scriptProcessorRef (generateNotes c s) = scriptProcessorRef s"
  "aiRef (generateNotes c s) = aiRef s"
  "lectureNotes (generateNotes c s) = lectureNotes s"
  "microtasks (generateNotes c s) = microtasks s"
  "renderStatus (generateNotes c s) = renderStatus s"
  by (simp_all add: generateNotes_def)

lemma handleMessage_notes_fields:
  "audioContextRef (handleMessage_notes m s) = audioContextRef s"
  "sessionPromiseRef (handleMessage_notes m s) = sessionPromiseRef s"
  "promises (handleMessage_notes m s) = promises s"
  by (simp_all add: handleMessage_notes_def Let_def generateNotes_fields split: option.splits)

lemma handleMessage_suffix:
  "suffix (currentTranscriptionRef s) (transcription s) \<Longrightarrow>
   suffix (currentTranscriptionRef (handleMessage m s)) (transcription (handleMessage m s))"
  by (simp add: handleMessage_def Let_def split: option.splits)

lemma handleMessage_notes_suffix:
  "suffix (currentTranscriptionRef s) (transcription s) \<Longrightarrow>
   suffix (currentTranscriptionRef (handleMessage_notes m s)) (transcription (handleMessage_notes m s))"
  by (simp add: handleMessage_notes_def Let_def generateNotes_fields split: option.splits)

lemma inv_handleMessage: "inv s \<Longrightarrow> inv (drain (handleMessage m s))"
  unfolding inv_drain_iff by (simp add: inv_def handleMessage_fields handleMessage_suffix)

lemma inv_handleMessage_notes: "inv s \<Longrightarrow> inv (drain (handleMessage_notes m s))"
  unfolding inv_drain_iff by (simp add: inv_def handleMessage_notes_fields handleMessage_notes_suffix)

lemma inv_settled: "inv s \<Longrightarrow> inv (drain (generateNotes_settled response s))"
  unfolding inv_drain_iff by (cases response) (simp_all add: inv_def generateNotes_settled_def)

lemma inv_onclose: "inv s \<Longrightarrow> inv (drain (onclose tm p s))"
  by (simp add: onclose_def Let_def inv_stop inv_idle_task)

lemma inv_onclose_notes: "inv s \<Longrightarrow> inv (drain (onclose_notes p s))"
  by (simp add: onclose_notes_def Let_def inv_stop_notes inv_idle_task)

lemma inv_onaudioprocess: "inv s \<Longrightarrow> inv (drain (onaudioprocess inputData s))"
  unfolding inv_drain_iff
  by (auto simp add: inv_def onaudioprocess_def promise_then_fields split: option.splits)

lemma reachable_inv: "reachable tm env s \<Longrightarrow> inv s"
proof (induction rule: reachable.induct)
  case r_initial
  show ?case by (simp add: inv_def initial_def)
qed (simp_all add: inv_click inv_stop inv_gotUserMedia inv_onopen inv_fulfilled inv_rejected
      inv_handleMessage inv_handleError inv_onclose inv_onaudioprocess)

lemma reachable_notes_inv: "reachable_notes env s \<Longrightarrow> inv s"
proof (induction rule: reachable_notes.induct)
  case n_initial
  show ?case by (simp add: inv_def initial_def)
qed (simp_all add: inv_click_notes inv_stop_notes inv_gotUserMedia_notes inv_onopen inv_fulfilled
      inv_rejected_notes inv_handleMessage_notes inv_settled inv_handleError_notes
      inv_onclose_notes inv_onaudioprocess)

section \<open>The demonstration run\<close>

lemma lit_key: "lit ''key'' \<noteq> []"
  by (simp add: lit_def)

lemma connecting_state_eq:
  "connecting_state tm =
     \<lparr> status = CONNECTING, transcription = [], lectureNotes = [], isGeneratingNotes = False,
       error = None, currentTranscriptionRef = [], aiRef = None, sessionPromiseRef = Some 0,
       streamRef = Some [0], audioContextRef = None, scriptProcessorRef = None,
       promises = [\<lparr> pstate = Pending, reactions = [], closure_status = IDLE \<rparr>],
       microtasks = [], trace = [GetUserMedia, LiveConnect 0], renderStatus = IDLE \<rparr>"
  by (simp add: connecting_state_def drain_eq startTranscription_gotUserMedia_def connect_def
      ControlButton_click_def startTranscription_def initial_def demo_env_def truthy_def lit_key
      Let_def)

lemma recording_state_eq:
  "recording_state tm =
     \<lparr> status = RECORDING, transcription = [], lectureNotes = [], isGeneratingNotes = False,
       error = None, currentTranscriptionRef = [], aiRef = None, sessionPromiseRef = Some 0,
       streamRef = Some [0], audioContextRef = Some AC_running, scriptProcessorRef = Some (),
       promises = [\<lparr> pstate = Fulfilled, reactions = [], closure_status = IDLE \<rparr>],
       microtasks = [],
       trace = [GetUserMedia, LiveConnect 0, NewAudioContext, CreateMediaStreamSource,
                CreateScriptProcessor, NodeConnect, NodeConnect],
       renderStatus = IDLE \<rparr>"
  by (simp add: recording_state_def connecting_state_eq drain_eq onopen_def session_fulfilled_def
      Let_def)

lemma reachable_connecting: "reachable tm demo_env (connecting_state tm)"
  unfolding connecting_state_def by (intro reachable.intros)

lemma reachable_recording: "reachable tm demo_env (recording_state tm)"
  unfolding recording_state_def by (intro reachable.intros reachable_connecting)

lemma connecting_state_notes_eq:
  "connecting_state_notes =
     \<lparr> status = CONNECTING, transcription = [], lectureNotes = [], isGeneratingNotes = False,
       error = None, currentTranscriptionRef = [], aiRef = Some (lit ''key''),
       sessionPromiseRef = Some 0,
       streamRef = Some [0], audioContextRef = None, scriptProcessorRef = None,
       promises = [\<lparr> pstate = Pending, reactions = [], closure_status = IDLE \<rparr>],
       microtasks = [], trace = [GetUserMedia, LiveConnect 0], renderStatus = IDLE \<rparr>"
  by (simp add: connecting_state_notes_def drain_eq startTranscription_notes_gotUserMedia_def
      connect_def ControlButton_click_notes_def startTranscription_notes_def initial_def
      demo_env_def truthy_def lit_key Let_def)

lemma recording_state_notes_eq:
  "recording_state_notes =
     \<lparr> status = RECORDING, transcription = [], lectureNotes = [], isGeneratingNotes = False,
       error = None, currentTranscriptionRef = [], aiRef = Some (lit ''key''),
       sessionPromiseRef = Some 0,
       streamRef = Some [0], audioContextRef = Some AC_running, scriptProcessorRef = Some (),
       promises = [\<lparr> pstate = Fulfilled, reactions = [], closure_status = IDLE \<rparr>],
       microtasks = [],
       trace = [GetUserMedia, LiveConnect 0, NewAudioContext, CreateMediaStreamSource,
                CreateScriptProcessor, NodeConnect, NodeConnect],
       renderStatus = IDLE \<rparr>"
  by (simp add: recording_state_notes_def connecting_state_notes_eq drain_eq onopen_def
      session_fulfilled_def Let_def)

lemma reachable_connecting_notes: "reachable_notes demo_env connecting_state_notes"
  unfolding connecting_state_notes_def by (intro reachable_notes.intros)

lemma reachable_recording_notes: "reachable_notes demo_env recording_state_notes"
  unfolding recording_state_notes_def by (intro reachable_notes.intros reachable_connecting_notes)

lemma stop_released_after:
  "audioContextRef s \<noteq> Some AC_closed \<Longrightarrow> released (stopTranscription tm s)"
  "audioContextRef s \<noteq> Some AC_closed \<Longrightarrow> released (stopTranscription_notes s)"
  by (simp_all add: released_def stop_refs stop_notes_refs)


section \<open>The deferred close of the session\<close>

lemma release_session_queue:
  "sessionPromiseRef s = Some p \<Longrightarrow> p < length (promises s) \<Longrightarrow>
   pstate (promises s ! p) = Fulfilled \<Longrightarrow>
   microtasks (release_session s) = microtasks s @ [(p, CloseSession)]"
  "sessionPromiseRef s = Some p \<Longrightarrow> p < length (promises s) \<Longrightarrow>
   pstate (promises s ! p) = Pending \<Longrightarrow>
   promises (release_session s) =
     (promises s)[p := (promises s ! p)\<lparr>reactions := reactions (promises s ! p) @ [CloseSession]\<rparr>]"
  "sessionPromiseRef s = Some p \<Longrightarrow> p < length (promises s) \<Longrightarrow>
   pstate (promises s ! p) = Pending \<Longrightarrow>
   microtasks (release_session s) = microtasks s"
  by (simp_all add: release_session_def promise_then_def Let_def)

lemma stop_queue:
  "microtasks (stopTranscription tm s) = microtasks (release_session s)"
  "promises (stopTranscription tm s) = promises (release_session s)"
  "microtasks (stopTranscription_notes s) = microtasks (release_session s)"
  "promises (stopTranscription_notes s) = promises (release_session s)"
  by (simp_all add: stopTranscription_def stopTranscription_notes_def Let_def release_fields
      release_session_def promise_then_def split: option.splits promise_state.splits)

lemma close_runs_fulfilled:
  assumes "inv s" "sessionPromiseRef s = Some p" "pstate (promises s ! p) = Fulfilled"
  shows "trace (drain (stopTranscription tm s)) = trace s @ teardown_calls s @ [SessionClose p]"
    and "trace (drain (stopTranscription_notes s)) = trace s @ teardown_calls s @ [SessionClose p]"
proof -
  from assms have p: "p < length (promises s)" and m: "microtasks s = []"
    by (simp_all add: inv_def)
  show "trace (drain (stopTranscription tm s)) = trace s @ teardown_calls s @ [SessionClose p]"
    by (simp add: drain_eq stop_refs stop_queue release_session_queue(1) [OF assms(2) p assms(3)] m)
  show "trace (drain (stopTranscription_notes s)) = trace s @ teardown_calls s @ [SessionClose p]"
    by (simp add: drain_eq stop_notes_refs stop_queue release_session_queue(1) [OF assms(2) p assms(3)] m)
qed

lemma close_runs_pending:
  assumes "inv s" "sessionPromiseRef s = Some p" "pstate (promises s ! p) = Pending"
  shows "trace (drain (session_fulfilled p (drain (stopTranscription tm s))))
       = trace s @ teardown_calls s
         @ map (\<lambda>r. reaction_call (p, r)) (reactions (promises s ! p)) @ [SessionClose p]"
    and "trace (drain (session_fulfilled p (drain (stopTranscription_notes s))))
       = trace s @ teardown_calls s
         @ map (\<lambda>r. reaction_call (p, r)) (reactions (promises s ! p)) @ [SessionClose p]"
proof -
  from assms have p: "p < length (promises s)" and m: "microtasks s = []"
    by (simp_all add: inv_def)
  note q = release_session_queue(2,3) [OF assms(2) p assms(3)]
  show "trace (drain (session_fulfilled p (drain (stopTranscription tm s))))
       = trace s @ teardown_calls s
         @ map (\<lambda>r. reaction_call (p, r)) (reactions (promises s ! p)) @ [SessionClose p]"
    using p by (simp add: drain_eq session_fulfilled_def stop_refs stop_queue q m assms(3) comp_def)
  show "trace (drain (session_fulfilled p (drain (stopTranscription_notes s))))
       = trace s @ teardown_calls s
         @ map (\<lambda>r. reaction_call (p, r)) (reactions (promises s ! p)) @ [SessionClose p]"
    using p by (simp add: drain_eq session_fulfilled_def stop_notes_refs stop_queue q m assms(3) comp_def)
qed

section \<open>Stopping\<close>

text \<open>
  C1, as amended. In every state a run of either component can reach with a status other
  than Idle, \<open>stopTranscription\<close> runs its four guarded steps in the order of the
  teardown sequence, each only for a resource the state holds: it registers the close of
  the session on the session promise, stops every capture track, disconnects the script
  processor node and closes the audio context. These are all the calls it makes; the
  \<open>close\<close> of the session is not among them. Afterwards the status is Idle and the four
  refs are null, and a second call changes nothing at all: no call is made and no field
  moves. The function has no failing branch. The session itself is closed last, after the
  tracks, the node and the context: by the reaction, which is the next call made when the
  session promise is fulfilled already, and which follows the reactions registered before
  it when the promise fulfils later.
\<close>

theorem stopTranscription_teardown:
  assumes "reachable tm env s" and "status s \<noteq> IDLE"
    and "reachable_notes env' n" and "status n \<noteq> IDLE"
  shows "trace (stopTranscription tm s) = trace s @ teardown_calls s
       \<and> released (stopTranscription tm s)
       \<and> stopTranscription tm (stopTranscription tm s) = stopTranscription tm s
       \<and> trace (stopTranscription_notes n) = trace n @ teardown_calls n
       \<and> released (stopTranscription_notes n)
       \<and> stopTranscription_notes (stopTranscription_notes n) = stopTranscription_notes n
       \<and> (\<forall>p. sessionPromiseRef s = Some p \<longrightarrow> pstate (promises s ! p) = Fulfilled \<longrightarrow>
              trace (drain (stopTranscription tm s))
                = trace s @ teardown_calls s @ [SessionClose p])
       \<and> (\<forall>p. sessionPromiseRef s = Some p \<longrightarrow> pstate (promises s ! p) = Pending \<longrightarrow>
              trace (drain (session_fulfilled p (drain (stopTranscription tm s))))
                = trace s @ teardown_calls s
                  @ map (\<lambda>r. reaction_call (p, r)) (reactions (promises s ! p))
                  @ [SessionClose p])
       \<and> (\<forall>p. sessionPromiseRef n = Some p \<longrightarrow> pstate (promises n ! p) = Fulfilled \<longrightarrow>
              trace (drain (stopTranscription_notes n))
                = trace n @ teardown_calls n @ [SessionClose p])
       \<and> (\<forall>p. sessionPromiseRef n = Some p \<longrightarrow> pstate (promises n ! p) = Pending \<longrightarrow>
              trace (drain (session_fulfilled p (drain (stopTranscription_notes n))))
                = trace n @ teardown_calls n
                  @ map (\<lambda>r. reaction_call (p, r)) (reactions (promises n ! p))
                  @ [SessionClose p])"
proof -
  have s: "inv s" using assms(1) by (rule reachable_inv)
  have n: "inv n" using assms(3) by (rule reachable_notes_inv)
  have "audioContextRef s \<noteq> Some AC_closed" "audioContextRef n \<noteq> Some AC_closed"
    using s n by (simp_all add: inv_def)
  then have "released (stopTranscription tm s)" "released (stopTranscription_notes n)"
    by (simp_all add: stop_released_after)
  then show ?thesis
    using close_runs_fulfilled [OF s] close_runs_pending [OF s]
      close_runs_fulfilled [OF n] close_runs_pending [OF n]
    by (simp add: stop_refs stop_notes_refs stop_idem stop_notes_idem)
qed

theorem stopTranscription_teardown_witness:
  "reachable Deferred demo_env (recording_state Deferred)
   \<and> status (recording_state Deferred) \<noteq> IDLE
   \<and> reachable_notes demo_env recording_state_notes
   \<and> status recording_state_notes \<noteq> IDLE
   \<and> trace (stopTranscription Deferred (recording_state Deferred))
       = trace (recording_state Deferred)
         @ [PromiseThen 0 CloseSession, TrackStop 0, NodeDisconnect, ContextClose]
   \<and> released (stopTranscription Deferred (recording_state Deferred))
   \<and> trace (drain (stopTranscription Deferred (recording_state Deferred)))
       = trace (recording_state Deferred)
         @ [PromiseThen 0 CloseSession, TrackStop 0, NodeDisconnect, ContextClose,
            SessionClose 0]
   \<and> trace (stopTranscription_notes recording_state_notes)
       = trace recording_state_notes
         @ [PromiseThen 0 CloseSession, TrackStop 0, NodeDisconnect, ContextClose]
   \<and> released (stopTranscription_notes recording_state_notes)
   \<and> trace (drain (stopTranscription_notes recording_state_notes))
       = trace recording_state_notes
         @ [PromiseThen 0 CloseSession, TrackStop 0, NodeDisconnect, ContextClose,
            SessionClose 0]"
proof -
  have a: "status (recording_state Deferred) \<noteq> IDLE"
    by (simp add: recording_state_eq)
  have b: "status recording_state_notes \<noteq> IDLE"
    by (simp add: recording_state_notes_eq)
  have c: "teardown_calls (recording_state Deferred)
         = [PromiseThen 0 CloseSession, TrackStop 0, NodeDisconnect, ContextClose]"
    by (simp add: recording_state_eq teardown_calls_def)
  have d: "teardown_calls recording_state_notes
         = [PromiseThen 0 CloseSession, TrackStop 0, NodeDisconnect, ContextClose]"
    by (simp add: recording_state_notes_eq teardown_calls_def)
  have e: "sessionPromiseRef (recording_state Deferred) = Some 0"
    "pstate (promises (recording_state Deferred) ! 0) = Fulfilled"
    by (simp_all add: recording_state_eq)
  have f: "sessionPromiseRef recording_state_notes = Some 0"
    "pstate (promises recording_state_notes ! 0) = Fulfilled"
    by (simp_all add: recording_state_notes_eq)
  show ?thesis
    using stopTranscription_teardown [OF reachable_recording a reachable_recording_notes b]
      reachable_recording reachable_recording_notes a b e f
    by (simp add: c d)
qed

text \<open>
  C1 as stated has the session closed first. Stopping the demonstration run while it
  records, \<open>stopTranscription\<close> itself does not call \<open>close\<close> on the session at all,
  and once its microtasks have run the close of the session is the last of the five calls,
  after the stop of the track, the disconnect of the node and the close of the context.
\<close>

theorem session_closed_last_counterexample:
  "SessionClose 0 \<notin> set (trace (stopTranscription Deferred (recording_state Deferred)))
   \<and> trace (drain (stopTranscription Deferred (recording_state Deferred)))
       = trace (recording_state Deferred)
         @ [PromiseThen 0 CloseSession, TrackStop 0, NodeDisconnect, ContextClose,
            SessionClose 0]
   \<and> SessionClose 0 \<notin> set (trace (stopTranscription_notes recording_state_notes))
   \<and> trace (drain (stopTranscription_notes recording_state_notes))
       = trace recording_state_notes
         @ [PromiseThen 0 CloseSession, TrackStop 0, NodeDisconnect, ContextClose,
            SessionClose 0]"
proof -
  have c: "teardown_calls (recording_state Deferred)
         = [PromiseThen 0 CloseSession, TrackStop 0, NodeDisconnect, ContextClose]"
    "teardown_calls recording_state_notes
         = [PromiseThen 0 CloseSession, TrackStop 0, NodeDisconnect, ContextClose]"
    by (simp_all add: recording_state_eq recording_state_notes_eq teardown_calls_def)
  have i: "inv (recording_state Deferred)" "inv recording_state_notes"
    by (simp_all add: reachable_inv [OF reachable_recording]
        reachable_notes_inv [OF reachable_recording_notes])
  have f: "sessionPromiseRef (recording_state Deferred) = Some 0"
    "pstate (promises (recording_state Deferred) ! 0) = Fulfilled"
    "sessionPromiseRef recording_state_notes = Some 0"
    "pstate (promises recording_state_notes ! 0) = Fulfilled"
    by (simp_all add: recording_state_eq recording_state_notes_eq)
  have t: "SessionClose 0 \<notin> set (trace (recording_state Deferred))"
    "SessionClose 0 \<notin> set (trace recording_state_notes)"
    by (simp_all add: recording_state_eq recording_state_notes_eq)
  show ?thesis
    using t close_runs_fulfilled(1) [OF i(1) f(1,2), of Deferred]
      close_runs_fulfilled(2) [OF i(2) f(3,4)]
    by (simp add: stop_refs stop_notes_refs c)
qed

section \<open>Encoding a frame\<close>

lemma createBlob_loop_eq:
  "i \<le> length samples \<Longrightarrow> length int16 = length samples \<Longrightarrow>
   createBlob_loop samples i int16
     = take i int16 @ map (\<lambda>x. ToInt16 (times_32768 x)) (drop i samples)"
proof (induction samples i int16 rule: createBlob_loop.induct)
  case (1 samples i int16)
  show ?case
  proof (cases "i < length samples")
    case True
    let ?a = "int16[i := ToInt16 (times_32768 (samples ! i))]"
    have "createBlob_loop samples i int16 = createBlob_loop samples (i + 1) ?a"
      using True by (subst createBlob_loop.simps) simp
    also have "\<dots> = take (i + 1) ?a @ map (\<lambda>x. ToInt16 (times_32768 x)) (drop (i + 1) samples)"
      using True "1.prems" by (intro "1.IH") simp_all
    also have "take (i + 1) ?a = take i int16 @ [ToInt16 (times_32768 (samples ! i))]"
      using True "1.prems" by (simp add: take_Suc_conv_app_nth)
    also have "drop i samples = samples ! i # drop (i + 1) samples"
      using True by (simp add: Cons_nth_drop_Suc)
    then have "(take i int16 @ [ToInt16 (times_32768 (samples ! i))])
               @ map (\<lambda>x. ToInt16 (times_32768 x)) (drop (i + 1) samples)
             = take i int16 @ map (\<lambda>x. ToInt16 (times_32768 x)) (drop i samples)"
      by simp
    finally show ?thesis .
  next
    case False
    with "1.prems" have "i = length samples" by simp
    then show ?thesis using "1.prems" by (subst createBlob_loop.simps) simp
  qed
qed

lemma createBlob_loop_map:
  "createBlob_loop samples 0 (replicate (length samples) 0)
     = map (\<lambda>x. ToInt16 (times_32768 x)) samples"
  by (simp add: createBlob_loop_eq)

lemma encode_loop_eq:
  "encode_loop bytes i binary = binary @ map ucast (drop i bytes)"
proof (induction bytes i binary rule: encode_loop.induct)
  case (1 bytes i binary)
  show ?case
  proof (cases "i < length bytes")
    case True
    have "encode_loop bytes i binary = encode_loop bytes (i + 1) (binary @ [ucast (bytes ! i)])"
      using True by (subst encode_loop.simps) simp
    also have "\<dots> = (binary @ [ucast (bytes ! i)]) @ map ucast (drop (i + 1) bytes)"
      using True by (intro "1.IH")
    also have "\<dots> = binary @ map ucast (drop i bytes)"
      using True by (simp add: Cons_nth_drop_Suc [symmetric])
    finally show ?thesis .
  next
    case False
    then show ?thesis by (subst encode_loop.simps) simp
  qed
qed

lemma encode_loop_map: "encode_loop bytes 0 [] = map ucast bytes"
  by (simp add: encode_loop_eq)

lemma unat_ucast_mod: "unat (ucast w :: 'c::len word) = unat w mod 2 ^ LENGTH('c)"
  by (simp add: unsigned_ucast_eq take_bit_eq_mod)

lemma unat_byte: "unat (b :: 8 word) < 256"
  using unsigned_less [of b, where 'a = nat] by simp

lemma unat_byte_code_unit: "unat (ucast (b :: 8 word) :: 16 word) = unat b"
  using unat_byte [of b] by (simp add: unat_ucast_mod)

lemma byte_code_unit: "(ucast (b :: 8 word) :: 16 word) \<le> 0xFF"
  using unat_byte [of b] by (simp add: word_le_nat_alt unat_byte_code_unit)

lemma byte_back: "(ucast (ucast (b :: 8 word) :: 16 word) :: 8 word) = b"
  using unat_byte [of b] by (simp add: word_unat_eq_iff unat_ucast_mod)

lemma btoa_bytes: "btoa (map ucast (bytes :: 8 word list)) = Some (base64_encode bytes)"
  by (simp add: btoa_def list_all_iff byte_code_unit byte_back comp_def)

lemma encode_eq: "encode bytes = Some (base64_encode bytes)"
  by (simp add: encode_def encode_loop_map btoa_bytes)

lemma unat_code_unit: "k < 65536 \<Longrightarrow> unat (of_nat k :: 16 word) = k"
  by (simp add: unat_of_nat)

lemma unat_b64_char:
  "n < 64 \<Longrightarrow> unat (b64_char n) =
     (if n < 26 then 65 + n else if n < 52 then 71 + n else if n < 62 then n - 4
      else if n = 62 then 43 else 47)"
proof -
  assume n: "n < 64"
  have "unat (of_nat (65 + n) :: 16 word) = 65 + n"
    "unat (of_nat (97 + (n - 26)) :: 16 word) = 97 + (n - 26)"
    "unat (of_nat (48 + (n - 52)) :: 16 word) = 48 + (n - 52)"
    using n by (simp_all only: unat_code_unit)
  then show ?thesis
    unfolding b64_char_def by (auto simp del: of_nat_add)
qed

lemma b64_value_char: "n < 64 \<Longrightarrow> b64_value (b64_char n) = Some n"
  by (auto simp add: b64_value_def unat_b64_char Let_def)

lemma b64_char_not_pad: "n < 64 \<Longrightarrow> b64_char n \<noteq> 61"
proof
  assume "n < 64" and "b64_char n = 61"
  then have "unat (b64_char n) = 61" by simp
  with \<open>n < 64\<close> show False by (auto simp add: unat_b64_char split: if_splits)
qed

lemma sextets:
  fixes a b c :: nat
  assumes "a < 256" "b < 256" "c < 256"
  shows "a div 4 < 64" "a mod 4 * 16 + b div 16 < 64" "b mod 16 * 4 + c div 64 < 64"
    "c mod 64 < 64" "a mod 4 * 16 < 64" "b mod 16 * 4 < 64"
proof -
  have "a mod 4 < 4" "b mod 16 < 16" "b div 16 < 16" "c div 64 < 4"
    using assms by (simp_all add: div_less_iff_less_mult)
  then show "a div 4 < 64" "a mod 4 * 16 + b div 16 < 64" "b mod 16 * 4 + c div 64 < 64"
    "c mod 64 < 64" "a mod 4 * 16 < 64" "b mod 16 * 4 < 64"
    using assms by (simp_all add: div_less_iff_less_mult)
qed

lemma div_add_small:
  fixes x y :: nat
  assumes "y < k"
  shows "(x * k + y) div k = x" "(x * k + y) mod k = y"
  using assms by simp_all

lemma octets:
  fixes a b c :: nat
  assumes "a < 256" "b < 256" "c < 256"
  shows "a div 4 * 4 + (a mod 4 * 16 + b div 16) div 16 = a"
    "(a mod 4 * 16 + b div 16) mod 16 * 16 + (b mod 16 * 4 + c div 64) div 4 = b"
    "(b mod 16 * 4 + c div 64) mod 4 * 64 + c mod 64 = c"
    "a div 4 * 4 + (a mod 4 * 16) div 16 = a"
    "(a mod 4 * 16) mod 16 = 0"
    "(a mod 4 * 16 + b div 16) mod 16 * 16 + (b mod 16 * 4) div 4 = b"
    "(b mod 16 * 4) mod 4 = 0"
proof -
  have b16: "b div 16 < 16" and c64: "c div 64 < 4"
    using assms by (simp_all add: div_less_iff_less_mult)
  have 1: "(a mod 4 * 16 + b div 16) div 16 = a mod 4" "(a mod 4 * 16 + b div 16) mod 16 = b div 16"
    using b16 by (simp_all add: div_add_small)
  have 2: "(b mod 16 * 4 + c div 64) div 4 = b mod 16" "(b mod 16 * 4 + c div 64) mod 4 = c div 64"
    using c64 by (simp_all add: div_add_small)
  show "a div 4 * 4 + (a mod 4 * 16 + b div 16) div 16 = a" by (simp add: 1)
  have b16': "b div 16 mod 16 = b div 16" using b16 by simp
  show "(a mod 4 * 16 + b div 16) mod 16 * 16 + (b mod 16 * 4 + c div 64) div 4 = b"
    by (simp add: 1 2 b16')
  have c64': "c div 64 mod 4 = c div 64" using c64 by simp
  show "(b mod 16 * 4 + c div 64) mod 4 * 64 + c mod 64 = c" by (simp add: 2 c64')
  show "a div 4 * 4 + (a mod 4 * 16) div 16 = a" by simp
  show "(a mod 4 * 16) mod 16 = 0" by simp
  have "(a mod 4 * 16 + b div 16) mod 16 * 16 + (b mod 16 * 4) div 4 = b div 16 * 16 + b mod 16"
    by (simp only: 1 nonzero_mult_div_cancel_right)
  then show "(a mod 4 * 16 + b div 16) mod 16 * 16 + (b mod 16 * 4) div 4 = b"
    by (simp only: div_mult_mod_eq)
  show "(b mod 16 * 4) mod 4 = 0" by simp
qed

lemma byte_of_unat: "word_of_nat (unat a) = (a :: 8 word)"
  by simp

lemma base64_roundtrip: "base64_decode (base64_encode bytes) = Some bytes"
proof (induction bytes rule: base64_encode.induct)
  case (1 a b c rest)
  define v1 v2 v3 v4 where v:
    "v1 = unat a div 4" "v2 = unat a mod 4 * 16 + unat b div 16"
    "v3 = unat b mod 16 * 4 + unat c div 64" "v4 = unat c mod 64"
  note s = sextets [OF unat_byte [of a] unat_byte [of b] unat_byte [of c], folded v]
  note o = octets [OF unat_byte [of a] unat_byte [of b] unat_byte [of c], folded v]
  have enc: "base64_encode (a # b # c # rest)
           = b64_char v1 # b64_char v2 # b64_char v3 # b64_char v4 # base64_encode rest"
    by (simp add: v)
  have bytes: "word_of_nat (v1 * 4 + v2 div 16) = a"
    "word_of_nat (v2 mod 16 * 16 + v3 div 4) = b" "word_of_nat (v3 mod 4 * 64 + v4) = c"
    by (simp_all only: o byte_of_unat)
  show ?case
    unfolding enc using "1.IH"
    by (simp add: b64_value_char s b64_char_not_pad bytes del: of_nat_add of_nat_mult)
next
  case (2 a b)
  define v1 v2 v3 where v:
    "v1 = unat a div 4" "v2 = unat a mod 4 * 16 + unat b div 16" "v3 = unat b mod 16 * 4"
  note s = sextets [OF unat_byte [of a] unat_byte [of b] unat_byte [of b], folded v]
  note o = octets [OF unat_byte [of a] unat_byte [of b] unat_byte [of b], folded v]
  have enc: "base64_encode [a, b] = [b64_char v1, b64_char v2, b64_char v3, 61]"
    by (simp add: v)
  have bytes: "word_of_nat (v1 * 4 + v2 div 16) = a"
    "word_of_nat (v2 mod 16 * 16 + v3 div 4) = b" "v3 mod 4 = 0"
    by (simp_all only: o byte_of_unat)
  show ?case
    unfolding enc
    by (simp add: b64_value_char s b64_char_not_pad bytes del: of_nat_add of_nat_mult)
next
  case (3 a)
  define v1 v2 where v: "v1 = unat a div 4" "v2 = unat a mod 4 * 16"
  note s = sextets [OF unat_byte [of a] unat_byte [of a] unat_byte [of a], folded v]
  note o = octets [OF unat_byte [of a] unat_byte [of a] unat_byte [of a], folded v]
  have enc: "base64_encode [a] = [b64_char v1, b64_char v2, 61, 61]"
    by (simp add: v)
  have bytes: "word_of_nat (v1 * 4 + v2 div 16) = a" "v2 mod 16 = 0"
    by (simp_all only: o byte_of_unat)
  show ?case
    unfolding enc
    by (simp add: b64_value_char s b64_char_not_pad bytes del: of_nat_add of_nat_mult)
next
  case 4
  show ?case by simp
qed

lemma low_byte_shift: "(k + 65536 * c) mod 256 = k mod (256 :: int)"
proof -
  have "k + 65536 * c = k + 256 * (256 * c)" by simp
  then show ?thesis by (simp only: mod_mult_self2)
qed

lemma high_byte_shift: "(k + 65536 * c) div 256 mod 256 = k div 256 mod (256 :: int)"
proof -
  have "k + 65536 * c = k + 256 * (256 * c)" by simp
  then have "(k + 65536 * c) div 256 = k div 256 + 256 * (256 * c) div 256"
    by (simp only: div_plus_div_distrib_dvd_right [OF dvd_triv_left])
  also have "\<dots> = k div 256 + 256 * c" by simp
  finally show ?thesis by (simp only: mod_mult_self2)
qed

lemma wrap16_shift: "(k + 32768) mod 65536 - 32768 = k + 65536 * (- ((k + 32768) div 65536))"
  for k :: int
proof -
  have "(k + 32768) mod 65536 = (k + 32768) - 65536 * ((k + 32768) div 65536)"
    by (rule minus_mult_div_eq_mod [symmetric])
  then show ?thesis by simp
qed

lemma mod16_shift: "k mod 65536 = k + 65536 * (- (k div 65536))" for k :: int
proof -
  have "k mod 65536 = k - 65536 * (k div 65536)"
    by (rule minus_mult_div_eq_mod [symmetric])
  then show ?thesis by simp
qed

lemma wrap16_low: "((k + 32768) mod 65536 - 32768) mod 256 = k mod 65536 mod (256 :: int)"
  by (simp only: wrap16_shift low_byte_shift mod16_shift [of k])

lemma wrap16_high:
  "((k + 32768) mod 65536 - 32768) div 256 mod 256 = k mod 65536 div 256 mod (256 :: int)"
  by (simp only: wrap16_shift high_byte_shift mod16_shift [of k])

lemma unat_int16: "unat (word_of_int k :: 16 word) = nat (k mod 65536)"
  by (simp add: unsigned_of_int take_bit_eq_mod)

lemma int16_bytes:
  "map unat (Uint8Array_of_Int16Array [word_of_int k])
     = spec_little_endian ((k + 32768) mod 65536 - 32768)"
proof -
  let ?m = "k mod 65536"
  have m: "0 \<le> ?m" by simp
  have low: "unat (ucast (word_of_int k :: 16 word) :: 8 word) = nat (?m mod 256)"
    using m by (simp add: unat_ucast_mod unat_int16 nat_mod_distrib)
  have "unat (drop_bit 8 (word_of_int k :: 16 word)) = drop_bit 8 (nat ?m)"
    by (simp only: unat_drop_bit_eq unat_int16)
  also have "\<dots> = nat ?m div 256"
    by (simp add: drop_bit_eq_div)
  finally have "unat (ucast (drop_bit 8 (word_of_int k :: 16 word)) :: 8 word)
              = nat ?m div 256 mod 256"
    by (simp only: unat_ucast_mod) simp
  then have high: "unat (ucast (drop_bit 8 (word_of_int k :: 16 word)) :: 8 word)
            = nat (?m div 256 mod 256)"
    using m by (simp add: nat_mod_distrib nat_div_distrib)
  show ?thesis
    by (simp add: Uint8Array_of_Int16Array_def spec_little_endian_def low high
        wrap16_low wrap16_high)
qed

lemma sample_bytes:
  "map unat (Uint8Array_of_Int16Array [ToInt16 (times_32768 x)])
     = spec_little_endian (spec_sample16 x)"
proof (cases x)
  case (Finite r)
  then show ?thesis
    by (simp add: ToInt16_def times_32768_def spec_sample16_def int16_bytes)
qed (simp_all add: ToInt16_def times_32768_def spec_sample16_def Uint8Array_of_Int16Array_def
      spec_little_endian_def)

lemma Uint8Array_Cons:
  "map unat (Uint8Array_of_Int16Array (w # ws))
     = map unat (Uint8Array_of_Int16Array [w]) @ map unat (Uint8Array_of_Int16Array ws)"
  by (simp add: Uint8Array_of_Int16Array_def)

lemma frame_bytes:
  "map unat (Uint8Array_of_Int16Array (map (\<lambda>x. ToInt16 (times_32768 x)) samples))
     = spec_frame_bytes samples"
proof (induction samples)
  case Nil
  show ?case by (simp add: Uint8Array_of_Int16Array_def spec_frame_bytes_def)
next
  case (Cons x samples)
  have "map unat (Uint8Array_of_Int16Array (map (\<lambda>x. ToInt16 (times_32768 x)) (x # samples)))
      = map unat (Uint8Array_of_Int16Array [ToInt16 (times_32768 x)])
        @ map unat (Uint8Array_of_Int16Array (map (\<lambda>x. ToInt16 (times_32768 x)) samples))"
    unfolding list.map by (rule Uint8Array_Cons)
  also have "\<dots> = spec_little_endian (spec_sample16 x) @ spec_frame_bytes samples"
    unfolding sample_bytes Cons.IH ..
  also have "\<dots> = spec_frame_bytes (x # samples)"
    by (simp add: spec_frame_bytes_def)
  finally show ?case .
qed

lemma createBlob_eq:
  "createBlob samples =
     Some \<lparr> data = base64_encode
                      (Uint8Array_of_Int16Array (map (\<lambda>x. ToInt16 (times_32768 x)) samples)),
            mimeType = lit ''audio/pcm;rate=16000'' \<rparr>"
  by (simp add: createBlob_def Let_def createBlob_loop_map encode_eq INPUT_SAMPLE_RATE_def lit_def)


lemma int16_samples:
  "ToInt16 (times_32768 (Finite (1 / 2))) = 0x4000"
  "ToInt16 (times_32768 (Finite (- 1))) = 0x8000"
  "ToInt16 (times_32768 (Finite 1)) = 0x8000"
  "ToInt16 (times_32768 NaN) = 0"
  by (simp_all add: ToInt16_def times_32768_def js_truncate_def)

lemma createBlob_example:
  "createBlob [Finite (1 / 2), Finite (- 1), Finite 1, NaN]
     = Some \<lparr> data = lit ''AEAAgACAAAA='', mimeType = lit ''audio/pcm;rate=16000'' \<rparr>"
  by (simp add: createBlob_eq int16_samples Uint8Array_of_Int16Array_def b64_char_def lit_def
      drop_bit_eq_div)

text \<open>
  C3. For every block of samples, \<open>createBlob\<close> returns a Blob (no step of the
  encoding fails) whose MIME type is \<open>audio/pcm;rate=16000\<close> and whose \<open>data\<close>
  decodes, as base 64, to exactly the bytes the specification describes: for each
  sample, in order, the low byte and then the high byte of the sample times 32768,
  truncated and wrapped modulo \<open>2 ^ 16\<close> into the signed 16-bit range, without
  clamping; two bytes for every input sample. (\<open>createBlob_example\<close> shows the
  wrap-around: the sample 1 is encoded as -32768.)
\<close>

theorem createBlob_round_trip:
  "\<exists>payload.
     createBlob samples = Some \<lparr> data = payload, mimeType = lit ''audio/pcm;rate=16000'' \<rparr>
     \<and> map_option (map unat) (base64_decode payload) = Some (spec_frame_bytes samples)
     \<and> length (spec_frame_bytes samples) = 2 * length samples"
proof -
  have "length (spec_frame_bytes samples) = 2 * length samples"
    by (induction samples) (simp_all add: spec_frame_bytes_def spec_little_endian_def)
  then show ?thesis
    by (simp add: createBlob_eq base64_roundtrip frame_bytes)
qed

section \<open>Server messages and turns\<close>

lemma fragment_fields:
  "transcription (handleMessage (fragment text) s) = transcription s @ text"
  "currentTranscriptionRef (handleMessage (fragment text) s) = currentTranscriptionRef s @ text"
  "transcription (handleMessage_notes (fragment text) s) = transcription s @ text"
  "currentTranscriptionRef (handleMessage_notes (fragment text) s) = currentTranscriptionRef s @ text"
  by (simp_all add: handleMessage_def handleMessage_notes_def fragment_def Let_def)

lemma fragments_fold:
  "transcription (fold handleMessage (map fragment texts) s) = transcription s @ concat texts
   \<and> currentTranscriptionRef (fold handleMessage (map fragment texts) s)
       = currentTranscriptionRef s @ concat texts"
  by (induction texts arbitrary: s) (simp_all add: fragment_fields)

lemma fragments_fold_notes:
  "transcription (fold handleMessage_notes (map fragment texts) s) = transcription s @ concat texts
   \<and> currentTranscriptionRef (fold handleMessage_notes (map fragment texts) s)
       = currentTranscriptionRef s @ concat texts"
  by (induction texts arbitrary: s) (simp_all add: fragment_fields)

lemma turn_complete_fields:
  "transcription (handleMessage turn_complete_event s) = trim (transcription s) @ paragraph_separator"
  "currentTranscriptionRef (handleMessage turn_complete_event s) = []"
  "transcription (handleMessage_notes turn_complete_event s)
     = trim (transcription s) @ paragraph_separator"
  "currentTranscriptionRef (handleMessage_notes turn_complete_event s) = []"
  by (simp_all add: handleMessage_def handleMessage_notes_def turn_complete_event_def Let_def
      generateNotes_fields)

text \<open>
  C2, as amended. For every sequence of fragments delivered through \<open>onmessage\<close> and
  followed by one turn-complete event, in either component and from any state: the
  transcript afterwards is the trimmed concatenation of the transcript held before the
  first fragment and the fragments, followed by exactly one paragraph separator, and the
  live buffer is empty. When the transcript was empty before the first fragment (as it is
  after \<open>startTranscription\<close>), this is the trimmed concatenation of the fragments
  followed by one paragraph separator.
\<close>

theorem turn_commits_transcript:
  "transcription (fold handleMessage (map fragment texts @ [turn_complete_event]) s)
     = trim (transcription s @ concat texts) @ paragraph_separator
   \<and> currentTranscriptionRef (fold handleMessage (map fragment texts @ [turn_complete_event]) s) = []
   \<and> transcription (fold handleMessage_notes (map fragment texts @ [turn_complete_event]) s)
     = trim (transcription s @ concat texts) @ paragraph_separator
   \<and> currentTranscriptionRef
       (fold handleMessage_notes (map fragment texts @ [turn_complete_event]) s) = []
   \<and> (transcription s = [] \<longrightarrow>
        transcription (fold handleMessage (map fragment texts @ [turn_complete_event]) s)
          = trim (concat texts) @ paragraph_separator
        \<and> transcription (fold handleMessage_notes (map fragment texts @ [turn_complete_event]) s)
          = trim (concat texts) @ paragraph_separator)"
  by (simp add: turn_complete_fields fragments_fold fragments_fold_notes)

lemma first_turn_transcription:
  "transcription first_turn_state = lit ''a'' @ paragraph_separator"
  "currentTranscriptionRef first_turn_state = []"
  "transcription first_turn_state_notes = lit ''a'' @ paragraph_separator"
  "currentTranscriptionRef first_turn_state_notes = []"
  by (simp_all add: first_turn_state_def first_turn_state_notes_def fragment_fields
      turn_complete_fields recording_state_eq recording_state_notes_eq)
     (simp_all add: trim_def is_ws_def lit_def)

theorem turn_commits_transcript_witness:
  "transcription (recording_state Deferred) = []
   \<and> transcription
        (fold handleMessage
           (map fragment [lit ''Hello '', lit ''world'', lit ''.''] @ [turn_complete_event])
           (recording_state Deferred))
      = lit ''Hello world.'' @ paragraph_separator"
proof -
  have e: "transcription (recording_state Deferred) = []"
    by (simp add: recording_state_eq)
  have t: "trim (concat [lit ''Hello '', lit ''world'', lit ''.'']) = lit ''Hello world.''"
    by (simp add: trim_def is_ws_def lit_def)
  have "transcription
          (fold handleMessage
             (map fragment [lit ''Hello '', lit ''world'', lit ''.''] @ [turn_complete_event])
             (recording_state Deferred))
        = trim (concat [lit ''Hello '', lit ''world'', lit ''.'']) @ paragraph_separator"
    using turn_commits_transcript
      [of "[lit ''Hello '', lit ''world'', lit ''.'']" "recording_state Deferred"] e
    by blast
  then show ?thesis
    unfolding t using e by blast
qed

text \<open>
  C2 as stated fails on a later turn: after a first turn \<open>a\<close>, the fragment \<open>" b"\<close>
  and a turn-complete leave the transcript \<open>"a\n\n b\n\n"\<close>, which is neither the trimmed
  fragment with a separator nor the earlier transcript followed by it.
\<close>

theorem later_turn_counterexample:
  "transcription
     (fold handleMessage (map fragment [lit '' b''] @ [turn_complete_event]) first_turn_state)
     \<noteq> trim (concat [lit '' b'']) @ paragraph_separator
   \<and> transcription
       (fold handleMessage (map fragment [lit '' b''] @ [turn_complete_event]) first_turn_state)
     \<noteq> transcription first_turn_state @ trim (concat [lit '' b'']) @ paragraph_separator"
  by (simp add: fragment_fields turn_complete_fields first_turn_transcription)
     (simp add: trim_def is_ws_def lit_def paragraph_separator_def)

lemma turn_complete_idem:
  "handleMessage turn_complete_event (handleMessage turn_complete_event s)
     = handleMessage turn_complete_event s"
  by (simp add: handleMessage_def turn_complete_event_def Let_def trim_separator)

lemma turn_complete_notes_idem:
  "handleMessage_notes turn_complete_event (handleMessage_notes turn_complete_event s)
     = handleMessage_notes turn_complete_event s"
  by (simp add: handleMessage_notes_def turn_complete_event_def Let_def trim_separator trim_Nil
      generateNotes_fields)

text \<open>
  C8, as amended. A turn-complete event that follows another with no fragment in between
  changes nothing, in either component: the state after the second event is the state
  after the first. So no fragment text is committed twice, the transcript still ends in
  the one separator the first event left (the second trims it off and appends it again),
  the live buffer stays empty, and no summarization request is made.
\<close>

theorem repeated_turn_complete:
  "handleMessage turn_complete_event (handleMessage turn_complete_event s)
     = handleMessage turn_complete_event s
   \<and> handleMessage_notes turn_complete_event (handleMessage_notes turn_complete_event s)
     = handleMessage_notes turn_complete_event s
   \<and> trace (handleMessage_notes turn_complete_event (handleMessage_notes turn_complete_event s))
     = trace (handleMessage_notes turn_complete_event s)
   \<and> currentTranscriptionRef (handleMessage_notes turn_complete_event s) = []"
  by (simp add: turn_complete_idem turn_complete_notes_idem turn_complete_fields)

text \<open>
  C8 as stated has the second event append a paragraph separator; on the code the
  transcript after the second event is not the transcript after the first followed by a
  separator.
\<close>

theorem repeated_turn_complete_counterexample:
  "transcription (handleMessage_notes turn_complete_event first_turn_state_notes)
     \<noteq> transcription first_turn_state_notes @ paragraph_separator
   \<and> transcription (handleMessage turn_complete_event first_turn_state)
     \<noteq> transcription first_turn_state @ paragraph_separator"
  by (simp add: turn_complete_fields first_turn_transcription)
     (simp add: trim_def is_ws_def lit_def paragraph_separator_def)

lemma handleMessage_notes_step:
  "handleMessage_notes m s =
     (if message_turnComplete m \<and> trim (currentTranscriptionRef s @ message_text m) \<noteq> []
      then generateNotes (trim (currentTranscriptionRef s @ message_text m)) (handleMessage m s)
      else handleMessage m s)"
  by (simp add: handleMessage_notes_def handleMessage_def message_turnComplete_def
      message_text_def generateNotes_def Let_def split: option.splits)

lemma handleMessage_commute:
  "handleMessage m (s\<lparr>isGeneratingNotes := g, trace := t\<rparr>)
     = (handleMessage m s)\<lparr>isGeneratingNotes := g, trace := t\<rparr>"
  by (simp add: handleMessage_def Let_def split: option.splits)

lemma generateNotes_agree:
  "(generateNotes c s)\<lparr>isGeneratingNotes := False, trace := []\<rparr>
     = s\<lparr>isGeneratingNotes := False, trace := []\<rparr>"
  by (simp add: generateNotes_def)

lemma agree_step:
  assumes "agree_up_to_notes a b"
  shows "agree_up_to_notes (handleMessage m a) (handleMessage_notes m b)"
proof -
  have "(handleMessage m a)\<lparr>isGeneratingNotes := False, trace := []\<rparr>
      = handleMessage m (a\<lparr>isGeneratingNotes := False, trace := []\<rparr>)"
    by (simp only: handleMessage_commute)
  also have "\<dots> = handleMessage m (b\<lparr>isGeneratingNotes := False, trace := []\<rparr>)"
    using assms by (simp only: agree_up_to_notes_def)
  also have "\<dots> = (handleMessage m b)\<lparr>isGeneratingNotes := False, trace := []\<rparr>"
    by (simp only: handleMessage_commute)
  also have "\<dots> = (handleMessage_notes m b)\<lparr>isGeneratingNotes := False, trace := []\<rparr>"
    by (simp only: handleMessage_notes_step generateNotes_agree if_distrib [of "\<lambda>x. x\<lparr>isGeneratingNotes := False, trace := []\<rparr>"] if_cancel)
  finally show ?thesis by (simp only: agree_up_to_notes_def)
qed

lemma agree_fold:
  "agree_up_to_notes a b \<Longrightarrow>
   agree_up_to_notes (fold handleMessage ms a) (fold handleMessage_notes ms b)"
  by (induction ms arbitrary: a b) (simp_all add: agree_step)

lemma agree_fields:
  assumes "agree_up_to_notes a b"
  shows "transcription a = transcription b"
    and "currentTranscriptionRef a = currentTranscriptionRef b"
proof -
  have "transcription (a\<lparr>isGeneratingNotes := False, trace := []\<rparr>)
      = transcription (b\<lparr>isGeneratingNotes := False, trace := []\<rparr>)"
    "currentTranscriptionRef (a\<lparr>isGeneratingNotes := False, trace := []\<rparr>)
      = currentTranscriptionRef (b\<lparr>isGeneratingNotes := False, trace := []\<rparr>)"
    using assms by (simp_all only: agree_up_to_notes_def)
  then show "transcription a = transcription b"
    and "currentTranscriptionRef a = currentTranscriptionRef b"
    by simp_all
qed

lemma handleMessage_trace: "trace (fold handleMessage ms s) = trace s"
  by (induction ms arbitrary: s) (simp_all add: handleMessage_def Let_def split: option.splits)

lemma handleMessage_notes_trace:
  "\<exists>requests. trace (fold handleMessage_notes ms s) = trace s @ map GenerateContent requests"
proof (induction ms arbitrary: s)
  case Nil
  have "trace s = trace s @ map GenerateContent []" by simp
  then show ?case by (simp only: fold.simps id_apply) blast
next
  case (Cons m ms)
  obtain r1 where r1: "trace (handleMessage_notes m s) = trace s @ map GenerateContent r1"
  proof (cases "trace (handleMessage_notes m s) = trace s")
    case True
    then have "trace (handleMessage_notes m s) = trace s @ map GenerateContent []" by simp
    then show ?thesis by (rule that)
  next
    case False
    then have "trace (handleMessage_notes m s)
        = trace s @ map GenerateContent [prompt (trim (currentTranscriptionRef s @ message_text m))]"
      by (simp add: handleMessage_notes_step generateNotes_def
          handleMessage_trace [of "[m]", simplified] split: if_splits)
    then show ?thesis by (rule that)
  qed
  obtain r2 where "trace (fold handleMessage_notes ms (handleMessage_notes m s))
      = trace (handleMessage_notes m s) @ map GenerateContent r2"
    using Cons.IH by blast
  then have "trace (fold handleMessage_notes (m # ms) s) = trace s @ map GenerateContent (r1 @ r2)"
    by (simp add: r1)
  then show ?case by blast
qed

text \<open>
  C10. From the same state and over the same sequence of server messages the two
  \<open>handleMessage\<close> functions compute the same transcript and the same live buffer;
  the two states agree in every field but \<open>isGeneratingNotes\<close> and the trace of calls.
  The transcriber makes no call; the note-taking component makes summarization requests
  only. On one message the note-taking component does what the transcriber does and, when
  the message completes a turn whose trimmed text is not empty, calls \<open>generateNotes\<close>
  on that text.
\<close>

theorem handleMessage_variants_agree:
  "transcription (fold handleMessage_notes ms s) = transcription (fold handleMessage ms s)
   \<and> currentTranscriptionRef (fold handleMessage_notes ms s)
     = currentTranscriptionRef (fold handleMessage ms s)
   \<and> agree_up_to_notes (fold handleMessage ms s) (fold handleMessage_notes ms s)
   \<and> trace (fold handleMessage ms s) = trace s
   \<and> (\<exists>requests. trace (fold handleMessage_notes ms s) = trace s @ map GenerateContent requests)
   \<and> handleMessage_notes m s =
       (if message_turnComplete m \<and> trim (currentTranscriptionRef s @ message_text m) \<noteq> []
        then generateNotes (trim (currentTranscriptionRef s @ message_text m)) (handleMessage m s)
        else handleMessage m s)"
proof -
  have a: "agree_up_to_notes (fold handleMessage ms s) (fold handleMessage_notes ms s)"
    by (rule agree_fold) (simp add: agree_up_to_notes_def)
  show ?thesis
    using a agree_fields [OF a] handleMessage_trace [of ms s] handleMessage_notes_trace [of ms s]
      handleMessage_notes_step [of m s]
    by (simp only:)
qed

section \<open>Errors, missing key and the close of the session\<close>

lemma teardown_no_acquire: "\<not> list_ex acquires (teardown_calls s)"
  by (simp add: teardown_calls_def list_ex_iff split: option.splits) auto

lemma handleError_fields:
  "trace (handleError tm e s) = trace s @ [ConsoleError] @ teardown_calls s"
  "error (handleError tm e s) = Some (error_text e)"
  "status (handleError tm e s) = IDLE"
  "length (promises (handleError tm e s)) = length (promises s)"
  "trace (handleError_notes e s) = trace s @ [ConsoleError] @ teardown_calls s"
  "error (handleError_notes e s) = Some (error_text e)"
  "status (handleError_notes e s) = IDLE"
  "length (promises (handleError_notes e s)) = length (promises s)"
  by (simp_all add: handleError_def handleError_notes_def Let_def stop_refs stop_keeps
      stop_notes_refs stop_notes_keeps teardown_calls_def)

lemma handleError_released:
  "audioContextRef s \<noteq> Some AC_closed \<Longrightarrow> released (handleError tm e s)"
  "audioContextRef s \<noteq> Some AC_closed \<Longrightarrow> released (handleError_notes e s)"
  by (simp_all add: handleError_def handleError_notes_def Let_def stop_released_after)

text \<open>
  C4, as amended. Whenever \<open>handleError\<close> runs in a state a run of either component can
  reach (so also when the transport's \<open>onerror\<close> fires while recording), it logs the
  error and then makes exactly the calls of the teardown sequence: the session is closed,
  the capture tracks are stopped, the node is disconnected, the audio context is closed,
  and the four refs are null. The resulting status is Idle, not Error. The message shown
  is \<open>Error: \<close>, a text and \<open>. Please try again.\<close>, where the text is the error's
  message when the value is an \<open>Error\<close> and \<open>An unknown error occurred.\<close> when it is
  an \<open>ErrorEvent\<close>.
\<close>

theorem handleError_tears_down:
  assumes "reachable tm env s" and "reachable_notes env' n"
  shows "trace (handleError tm e s) = trace s @ [ConsoleError] @ teardown_calls s
       \<and> released (handleError tm e s)
       \<and> status (handleError tm e s) = IDLE
       \<and> error (handleError tm e s) = Some (error_text e)
       \<and> trace (handleError_notes e n) = trace n @ [ConsoleError] @ teardown_calls n
       \<and> released (handleError_notes e n)
       \<and> status (handleError_notes e n) = IDLE
       \<and> error (handleError_notes e n) = Some (error_text e)
       \<and> error_text (JsError message) = lit ''Error: '' @ message @ lit ''. Please try again.''
       \<and> error_text (JsErrorEvent message)
           = lit ''Error: An unknown error occurred.. Please try again.''"
proof -
  have "audioContextRef s \<noteq> Some AC_closed" "audioContextRef n \<noteq> Some AC_closed"
    using reachable_inv [OF assms(1)] reachable_notes_inv [OF assms(2)]
    by (simp_all add: inv_def)
  then have "released (handleError tm e s)" "released (handleError_notes e n)"
    by (simp_all add: handleError_released)
  moreover have "error_text (JsError message) = lit ''Error: '' @ message @ lit ''. Please try again.''"
    "error_text (JsErrorEvent message) = lit ''Error: An unknown error occurred.. Please try again.''"
    by (simp_all add: error_text_def lit_def)
  ultimately show ?thesis
    by (simp only: handleError_fields simp_thms)
qed

theorem handleError_tears_down_witness:
  "reachable Deferred demo_env (recording_state Deferred)
   \<and> reachable_notes demo_env recording_state_notes
   \<and> trace (handleError Deferred (JsError (lit ''closed'')) (recording_state Deferred))
       = trace (recording_state Deferred)
         @ [ConsoleError, PromiseThen 0 CloseSession, TrackStop 0, NodeDisconnect, ContextClose]
   \<and> status (handleError Deferred (JsError (lit ''closed'')) (recording_state Deferred)) = IDLE
   \<and> error (handleError Deferred (JsError (lit ''closed'')) (recording_state Deferred))
       = Some (lit ''Error: closed. Please try again.'')"
proof -
  have c: "teardown_calls (recording_state Deferred)
         = [PromiseThen 0 CloseSession, TrackStop 0, NodeDisconnect, ContextClose]"
    by (simp add: recording_state_eq teardown_calls_def)
  have t: "error_text (JsError (lit ''closed'')) = lit ''Error: closed. Please try again.''"
    by (simp add: error_text_def lit_def)
  show ?thesis
    using handleError_tears_down [OF reachable_recording reachable_recording_notes,
        where e = "JsError (lit ''closed'')"]
      reachable_recording reachable_recording_notes
    by (simp add: c t)
qed

text \<open>
  C4 as stated fails when \<open>onerror\<close> fires while recording: the status afterwards is
  Idle, and the message shown for an \<open>ErrorEvent\<close> does not contain the event's text.
\<close>

theorem handleError_counterexample:
  "status (handleError Deferred (JsErrorEvent (lit ''socket'')) (recording_state Deferred)) \<noteq> ERROR
   \<and> status (handleError_notes (JsErrorEvent (lit ''socket'')) recording_state_notes) \<noteq> ERROR
   \<and> error (handleError Deferred (JsErrorEvent (lit ''socket'')) (recording_state Deferred))
       = Some (lit ''Error: An unknown error occurred.. Please try again.'')
   \<and> \<not> sublist (lit ''socket'') (lit ''Error: An unknown error occurred.. Please try again.'')"
proof -
  have "\<not> sublist (lit ''socket'') (lit ''Error: An unknown error occurred.. Please try again.'')"
    by (simp add: lit_def sublist_Cons_right prefix_Cons)
  then show ?thesis
    by (simp add: handleError_fields) (simp add: error_text_def lit_def)
qed

lemma teardown_calls_start:
  "teardown_calls (s\<lparr>renderStatus := r, status := st, error := e, transcription := t,
       currentTranscriptionRef := c\<rparr>) = teardown_calls s"
  by (simp add: teardown_calls_def)

lemma start_missing_key:
  "\<not> truthy key \<Longrightarrow>
   startTranscription tm (ProcessEnv key) s =
     handleError tm (JsError (lit ''API_KEY environment variable not set.''))
       (s\<lparr>renderStatus := status s, status := CONNECTING, error := None, transcription := [],
          currentTranscriptionRef := []\<rparr>)"
  "startTranscription tm (NoProcessEnv message) s =
     handleError tm (JsError message)
       (s\<lparr>renderStatus := status s, status := CONNECTING, error := None, transcription := [],
          currentTranscriptionRef := []\<rparr>)"
  by (simp_all add: startTranscription_def Let_def)

lemma start_notes_missing_key:
  "\<not> truthy key \<Longrightarrow>
   startTranscription_notes (ProcessEnv key) s =
     s\<lparr>renderStatus := status s, status := ERROR, error := Some API_KEY_missing_message,
       transcription := [], lectureNotes := [], currentTranscriptionRef := []\<rparr>"
  "startTranscription_notes (NoProcessEnv message) s =
     s\<lparr>renderStatus := status s, status := ERROR, error := Some API_KEY_missing_message,
       transcription := [], lectureNotes := [], currentTranscriptionRef := []\<rparr>"
  by (simp_all add: startTranscription_notes_def Let_def truthy_def)

text \<open>
  C5, as amended. When \<open>startTranscription\<close> is called and the API key is absent
  (\<open>undefined\<close> or empty; or, with no \<open>process.env\<close> at all, the read of the key
  fails), neither component calls \<open>getUserMedia\<close> or \<open>connect\<close>, and no session
  promise is created. The note-taking component sets the status to Error with its
  message and makes no call at all. The transcriber goes through \<open>handleError\<close>: it
  logs the error, releases whatever the state still holds, shows
  \<open>Error: API_KEY environment variable not set.. Please try again.\<close>, and its status
  is Idle, not Error.
\<close>

theorem start_without_key:
  assumes "\<not> truthy key"
  shows "status (startTranscription_notes (ProcessEnv key) s) = ERROR
       \<and> error (startTranscription_notes (ProcessEnv key) s) = Some API_KEY_missing_message
       \<and> API_KEY_missing_message \<noteq> []
       \<and> trace (startTranscription_notes (ProcessEnv key) s) = trace s
       \<and> promises (startTranscription_notes (ProcessEnv key) s) = promises s
       \<and> streamRef (startTranscription_notes (ProcessEnv key) s) = streamRef s
       \<and> sessionPromiseRef (startTranscription_notes (ProcessEnv key) s) = sessionPromiseRef s
       \<and> startTranscription_notes (NoProcessEnv message) s
           = startTranscription_notes (ProcessEnv key) s
       \<and> status (startTranscription tm (ProcessEnv key) s) = IDLE
       \<and> error (startTranscription tm (ProcessEnv key) s)
           = Some (lit ''Error: API_KEY environment variable not set.. Please try again.'')
       \<and> trace (startTranscription tm (ProcessEnv key) s)
           = trace s @ [ConsoleError] @ teardown_calls s
       \<and> \<not> list_ex acquires ([ConsoleError] @ teardown_calls s)
       \<and> length (promises (startTranscription tm (ProcessEnv key) s)) = length (promises s)
       \<and> status (startTranscription tm (NoProcessEnv message) s) = IDLE
       \<and> trace (startTranscription tm (NoProcessEnv message) s)
           = trace s @ [ConsoleError] @ teardown_calls s"
proof -
  have m: "API_KEY_missing_message \<noteq> []"
    by (simp add: API_KEY_missing_message_def)
  have t: "error_text (JsError (lit ''API_KEY environment variable not set.''))
         = lit ''Error: API_KEY environment variable not set.. Please try again.''"
    by (simp add: error_text_def lit_def)
  have a: "\<not> list_ex acquires ([ConsoleError] @ teardown_calls s)"
    using teardown_no_acquire [of s] by simp
  show ?thesis
    using m a assms
    by (simp add: start_missing_key start_notes_missing_key
        handleError_fields teardown_calls_start t)
qed

theorem start_without_key_witness:
  "\<not> truthy None
   \<and> status (startTranscription_notes (ProcessEnv None) initial) = ERROR
   \<and> trace (startTranscription_notes (ProcessEnv None) initial) = []
   \<and> status (startTranscription Deferred (ProcessEnv None) initial) = IDLE
   \<and> trace (startTranscription Deferred (ProcessEnv None) initial) = [ConsoleError]"
proof -
  have k: "\<not> truthy None" by (simp add: truthy_def)
  have t: "teardown_calls initial = []" "trace initial = []"
    by (simp_all add: teardown_calls_def initial_def)
  show ?thesis
    using start_without_key [OF k, of initial _ Deferred] k
    by (simp add: t)
qed

text \<open>
  C5 as stated fails for the transcriber: started from the initial state with no key,
  its status is Idle afterwards.
\<close>

theorem start_without_key_counterexample:
  "status (startTranscription Deferred (ProcessEnv None) initial) \<noteq> ERROR"
  by (simp add: startTranscription_def Let_def truthy_def handleError_fields)

lemma inv_t_drain: "inv_transcriber (drain s) = inv_transcriber s"
  by (simp add: inv_transcriber_def drain_eq closures_def)

lemma inv_t_stop: "inv_transcriber s \<Longrightarrow> inv_transcriber (stopTranscription tm s)"
  by (simp add: inv_transcriber_def stop_refs stop_keeps closures_stop)

lemma closures_fields:
  "closures (s\<lparr>trace := t\<rparr>) = closures s"
  "closures (s\<lparr>error := e\<rparr>) = closures s"
  "closures (s\<lparr>status := st\<rparr>) = closures s"
  "closures (s\<lparr>renderStatus := r\<rparr>) = closures s"
  "closures (s\<lparr>transcription := tr\<rparr>) = closures s"
  "closures (s\<lparr>currentTranscriptionRef := c\<rparr>) = closures s"
  "closures (s\<lparr>streamRef := sr\<rparr>) = closures s"
  "closures (s\<lparr>audioContextRef := a\<rparr>) = closures s"
  "closures (s\<lparr>scriptProcessorRef := sp\<rparr>) = closures s"
  by (simp_all add: closures_def)

lemma inv_t_handleError: "inv_transcriber s \<Longrightarrow> inv_transcriber (handleError tm e s)"
proof -
  assume "inv_transcriber s"
  then have "inv_transcriber (s\<lparr>trace := trace s @ [ConsoleError], error := Some (error_text e)\<rparr>)"
    by (simp add: inv_transcriber_def closures_fields)
  then show ?thesis by (simp add: handleError_def Let_def inv_t_stop)
qed

lemma inv_t_start:
  "inv_transcriber s \<Longrightarrow> status s \<noteq> CONNECTING \<Longrightarrow> status s \<noteq> STOPPING \<Longrightarrow>
   status s \<noteq> RECORDING \<Longrightarrow> inv_transcriber (startTranscription tm env s)"
proof -
  assume i: "inv_transcriber s" and "status s \<noteq> CONNECTING" "status s \<noteq> STOPPING"
    "status s \<noteq> RECORDING"
  then have idle: "status s = IDLE" by (cases "status s") (simp_all add: inv_transcriber_def)
  let ?s1 = "s\<lparr>renderStatus := status s, status := CONNECTING, error := None,
       transcription := [], currentTranscriptionRef := []\<rparr>"
  have s1: "inv_transcriber ?s1"
    using i idle by (simp add: inv_transcriber_def closures_fields)
  show ?thesis
  proof (cases env)
    case (NoProcessEnv message)
    then show ?thesis using s1 by (simp add: startTranscription_def Let_def inv_t_handleError)
  next
    case (ProcessEnv key)
    show ?thesis
    proof (cases "truthy key")
      case True
      have "inv_transcriber (?s1\<lparr>trace := trace ?s1 @ [GetUserMedia]\<rparr>)"
        using s1 by (simp add: inv_transcriber_def closures_fields)
      then show ?thesis using True ProcessEnv by (simp add: startTranscription_def Let_def)
    next
      case False
      then show ?thesis using s1 ProcessEnv
        by (simp add: startTranscription_def Let_def inv_t_handleError)
    qed
  qed
qed

lemma inv_t_click: "inv_transcriber s \<Longrightarrow> inv_transcriber (ControlButton_click tm env s)"
  by (simp add: ControlButton_click_def inv_t_stop inv_t_start)

lemma inv_t_connect: "inv_transcriber s \<Longrightarrow> inv_transcriber (connect s)"
  by (simp add: inv_transcriber_def connect_def Let_def closures_def)

lemma inv_t_gotUserMedia:
  "inv_transcriber s \<Longrightarrow> inv_transcriber (startTranscription_gotUserMedia tm settled s)"
proof (cases settled)
  case (Inl err)
  assume "inv_transcriber s"
  then show ?thesis by (simp add: Inl startTranscription_gotUserMedia_def inv_t_handleError)
next
  case (Inr stream)
  assume "inv_transcriber s"
  then have "inv_transcriber (s\<lparr>streamRef := Some stream\<rparr>)"
    by (simp add: inv_transcriber_def closures_fields)
  then show ?thesis by (simp add: Inr startTranscription_gotUserMedia_def inv_t_connect)
qed

lemma inv_t_onopen: "inv_transcriber s \<Longrightarrow> inv_transcriber (onopen s)"
  by (simp add: inv_transcriber_def onopen_def Let_def closures_def split: option.splits)

lemma closures_settle:
  "p < length (promises s) \<Longrightarrow>
   closures (s\<lparr>promises := (promises s)[p := (promises s ! p)\<lparr>pstate := st, reactions := rs\<rparr>]\<rparr>)
     = closures s"
  by (simp add: closures_def closures_update)

lemma inv_t_fulfilled: "inv_transcriber s \<Longrightarrow> inv_transcriber (session_fulfilled p s)"
  by (simp add: inv_transcriber_def session_fulfilled_def closures_def closures_update)

lemma inv_t_rejected: "inv_transcriber s \<Longrightarrow> inv_transcriber (session_rejected tm p err s)"
proof (cases "p < length (promises s) \<and> pstate (promises s ! p) = Pending")
  case True
  assume "inv_transcriber s"
  then have "inv_transcriber
      (s\<lparr>promises := (promises s)[p := (promises s ! p)\<lparr>pstate := Rejected, reactions := []\<rparr>]\<rparr>)"
    using True by (simp add: inv_transcriber_def closures_def closures_update)
  then show ?thesis using True by (simp add: session_rejected_def inv_t_handleError)
next
  case False
  assume "inv_transcriber s"
  then show ?thesis using False by (auto simp add: session_rejected_def)
qed

lemma inv_t_handleMessage: "inv_transcriber s \<Longrightarrow> inv_transcriber (handleMessage m s)"
  by (simp add: inv_transcriber_def closures_def handleMessage_fields)

lemma inv_t_onclose: "inv_transcriber s \<Longrightarrow> inv_transcriber (onclose tm p s)"
  by (simp add: onclose_def Let_def inv_t_stop)

lemma inv_t_onaudioprocess: "inv_transcriber s \<Longrightarrow> inv_transcriber (onaudioprocess inputData s)"
  by (simp add: inv_transcriber_def onaudioprocess_def promise_then_fields closures_promise_then
      split: option.splits)

lemma reachable_inv_transcriber: "reachable tm env s \<Longrightarrow> inv_transcriber s"
proof (induction rule: reachable.induct)
  case r_initial
  show ?case by (simp add: inv_transcriber_def initial_def closures_def)
qed (simp_all add: inv_t_drain inv_t_click inv_t_stop inv_t_gotUserMedia inv_t_onopen
      inv_t_fulfilled inv_t_rejected inv_t_handleMessage inv_t_handleError inv_t_onclose
      inv_t_onaudioprocess)

text \<open>
  C6: the code of the transcriber at every state it can reach. \<open>onclose\<close> tests the
  status its callback closed over when \<open>connect\<close> was called, and that status is Idle
  in every run; so \<open>onclose\<close> never calls \<open>stopTranscription\<close>, whatever the status
  is when the session closes.
\<close>

theorem onclose_never_stops:
  assumes "reachable tm env s"
  shows "onclose tm p s = s"
proof (cases "p < length (promises s)")
  case True
  have "list_all (\<lambda>st. st = IDLE) (closures s)"
    using reachable_inv_transcriber [OF assms] by (simp add: inv_transcriber_def)
  then have "closure_status (promises s ! p) = IDLE"
    using True by (simp add: closures_def list_all_iff)
  then show ?thesis using True by (simp add: onclose_def)
next
  case False
  then show ?thesis by (simp add: onclose_def)
qed

theorem onclose_never_stops_witness:
  "reachable Deferred demo_env (recording_state Deferred)
   \<and> status (recording_state Deferred) = RECORDING
   \<and> closure_status (promises (recording_state Deferred) ! 0) = IDLE
   \<and> onclose Deferred 0 (recording_state Deferred) = recording_state Deferred
   \<and> streamRef (onclose Deferred 0 (recording_state Deferred)) = Some [0]
   \<and> audioContextRef (onclose Deferred 0 (recording_state Deferred)) = Some AC_running
   \<and> status recording_state_notes = RECORDING
   \<and> onclose_notes 0 recording_state_notes = recording_state_notes"
proof -
  have n: "onclose_notes 0 recording_state_notes = recording_state_notes"
    by (simp add: onclose_notes_def recording_state_notes_eq)
  show ?thesis
    using onclose_never_stops [OF reachable_recording, where p = 0] reachable_recording n
    by (simp add: recording_state_eq recording_state_notes_eq)
qed

section \<open>Stopping with a turn in progress\<close>

lemma reachable_partial: "reachable tm demo_env (partial_turn_state tm)"
  unfolding partial_turn_state_def by (intro reachable.intros reachable_recording)

lemma reachable_partial_notes: "reachable_notes demo_env partial_turn_state_notes"
  unfolding partial_turn_state_notes_def by (intro reachable_notes.intros reachable_recording_notes)

lemma partial_turn_fields:
  "transcription (partial_turn_state tm) = lit ''hi''"
  "currentTranscriptionRef (partial_turn_state tm) = lit ''hi''"
  "transcription partial_turn_state_notes = lit ''hi''"
  "currentTranscriptionRef partial_turn_state_notes = lit ''hi''"
  by (simp_all add: partial_turn_state_def partial_turn_state_notes_def drain_eq fragment_fields
      recording_state_eq recording_state_notes_eq)

lemma trim_hi: "trim (lit ''hi'') = lit ''hi''" "lit ''hi'' \<noteq> []"
  by (simp_all add: trim_def is_ws_def lit_def)

lemma stop_keeps_text:
  assumes "suffix (currentTranscriptionRef s) (transcription s)"
  shows "sublist (trim (currentTranscriptionRef s)) (transcription (stopTranscription tm s))"
proof (cases "currentTranscriptionRef s = []")
  case True
  then show ?thesis by (simp add: trim_Nil)
next
  case False
  obtain before where "transcription s = before @ currentTranscriptionRef s"
    using assms by (auto simp: suffix_def)
  then have "sublist (currentTranscriptionRef s)
          (transcription s @ flush_read tm (currentTranscriptionRef s))"
    unfolding sublist_def by (metis append.assoc)
  then have "sublist (trim (currentTranscriptionRef s))
          (trim (transcription s @ flush_read tm (currentTranscriptionRef s)))"
    by (rule sublist_trim)
  then show ?thesis using False by (simp only: stop_transcription if_False)
qed

text \<open>
  C7, as amended. Every fragment is appended to the transcript when it arrives, so in
  every state a run can reach the live buffer is the end of the transcript, and stopping
  discards none of it. In the note-taking component \<open>stopTranscription\<close> leaves the
  transcript and the live buffer as they are. In the transcriber it empties the live
  buffer, and whatever its flush finds in the ref cell, the trimmed text of the buffer is
  still part of the transcript when the status returns to Idle.
\<close>

theorem stop_discards_no_text:
  assumes "reachable tm env s" and "reachable_notes env' n"
  shows "suffix (currentTranscriptionRef s) (transcription s)
       \<and> sublist (trim (currentTranscriptionRef s)) (transcription (stopTranscription tm' s))
       \<and> currentTranscriptionRef (stopTranscription tm' s) = []
       \<and> status (stopTranscription tm' s) = IDLE
       \<and> suffix (currentTranscriptionRef n) (transcription n)
       \<and> transcription (stopTranscription_notes n) = transcription n
       \<and> currentTranscriptionRef (stopTranscription_notes n) = currentTranscriptionRef n
       \<and> status (stopTranscription_notes n) = IDLE"
proof -
  have s: "suffix (currentTranscriptionRef s) (transcription s)"
    using reachable_inv [OF assms(1)] by (simp add: inv_def)
  have n: "suffix (currentTranscriptionRef n) (transcription n)"
    using reachable_notes_inv [OF assms(2)] by (simp add: inv_def)
  show ?thesis
    using s n stop_keeps_text [OF s, of tm']
    by (simp add: stop_refs stop_notes_refs stop_notes_keeps)
qed

theorem stop_discards_no_text_witness:
  "reachable Deferred demo_env (partial_turn_state Deferred)
   \<and> reachable_notes demo_env partial_turn_state_notes
   \<and> currentTranscriptionRef (partial_turn_state Deferred) = lit ''hi''
   \<and> sublist (lit ''hi'')
        (transcription (stopTranscription (Later (lit ''x'')) (partial_turn_state Deferred)))
   \<and> currentTranscriptionRef (stopTranscription (Later (lit ''x'')) (partial_turn_state Deferred))
       = []
   \<and> transcription (stopTranscription_notes partial_turn_state_notes) = lit ''hi''"
  using stop_discards_no_text [OF reachable_partial reachable_partial_notes,
      where tm' = "Later (lit ''x'')"]
    reachable_partial reachable_partial_notes
  by (simp add: partial_turn_fields trim_hi)

text \<open>
  C7 as stated has \<open>stopTranscription\<close> append the live buffer to the transcript. In the
  note-taking component, with the fragment \<open>hi\<close> received and its turn not complete,
  the transcript after the stop is the transcript before it, not that transcript followed
  by the buffer, and the buffer is not emptied.
\<close>

theorem stop_appends_counterexample:
  "transcription (stopTranscription_notes partial_turn_state_notes)
     \<noteq> transcription partial_turn_state_notes @ currentTranscriptionRef partial_turn_state_notes
   \<and> transcription (stopTranscription_notes partial_turn_state_notes)
     = transcription partial_turn_state_notes
   \<and> currentTranscriptionRef (stopTranscription_notes partial_turn_state_notes) \<noteq> []"
  by (simp add: stop_notes_keeps partial_turn_fields trim_hi)

text \<open>
  The flush of the transcriber on three runs from the same state (transcript and buffer
  \<open>hi\<close>): applied before any other message it only trims; applied at once it appends
  the buffer a second time; and when the fragment \<open>x\<close> is handled between the stop and
  the application of the update, the flush appends \<open>x\<close> and the fragment's own update
  appends it again.
\<close>

lemma flush_examples:
  "transcription (stopTranscription Deferred (partial_turn_state Deferred)) = lit ''hi''"
  "transcription (stopTranscription Immediate (partial_turn_state Deferred)) = lit ''hihi''"
  "transcription
     (handleMessage (fragment (lit ''x''))
        (stopTranscription (Later (lit ''x'')) (partial_turn_state Deferred))) = lit ''hixx''"
  by (simp_all add: stop_transcription partial_turn_fields trim_hi flush_read_def
      fragment_fields)
     (simp_all add: trim_def is_ws_def lit_def)

section \<open>Sending the frames\<close>

lemma createBlob_pcm: "createBlob inputData = Some (pcmBlob_of inputData)"
  by (simp add: pcmBlob_of_def createBlob_eq)

lemma sent_frames_append: "sent_frames (xs @ ys) = sent_frames xs @ sent_frames ys"
  by (simp add: sent_frames_def)

lemma queued_frames_append: "queued_frames (xs @ ys) = queued_frames xs @ queued_frames ys"
  by (simp add: queued_frames_def)

lemma sent_reactions:
  "sent_frames (map (\<lambda>r. reaction_call (p, r)) rs) = queued_frames rs"
  unfolding sent_frames_def queued_frames_def
proof (induction rs)
  case Nil
  show ?case by simp
next
  case (Cons r rs)
  then show ?case by (cases r) simp_all
qed

lemma audio_task_pending:
  assumes "holds_session p Pending s"
  shows "holds_session p Pending (audio_task d s)"
    and "sent_frames (trace (audio_task d s)) = sent_frames (trace s)"
    and "reactions (promises (audio_task d s) ! p)
           = reactions (promises s ! p) @ [SendRealtimeInput (pcmBlob_of d)]"
  using assms
  by (simp_all add: holds_session_def audio_task_def drain_eq onaudioprocess_def createBlob_pcm
      promise_then_def Let_def sent_frames_def)

lemma audio_task_fulfilled:
  assumes "holds_session p Fulfilled s"
  shows "holds_session p Fulfilled (audio_task d s)"
    and "sent_frames (trace (audio_task d s)) = sent_frames (trace s) @ [pcmBlob_of d]"
  using assms
  by (simp_all add: holds_session_def audio_task_def drain_eq onaudioprocess_def createBlob_pcm
      promise_then_def Let_def sent_frames_def)

lemma audio_tasks_pending:
  "holds_session p Pending s \<Longrightarrow>
   holds_session p Pending (fold audio_task ds s)
   \<and> sent_frames (trace (fold audio_task ds s)) = sent_frames (trace s)
   \<and> queued_frames (reactions (promises (fold audio_task ds s) ! p))
       = queued_frames (reactions (promises s ! p)) @ map pcmBlob_of ds"
proof (induction ds arbitrary: s)
  case Nil
  then show ?case by simp
next
  case (Cons d ds)
  note step = audio_task_pending [OF Cons.prems, of d]
  from Cons.IH [OF step(1)] show ?case
    by (simp add: step(2,3) queued_frames_append) (simp add: queued_frames_def)
qed

lemma audio_tasks_fulfilled:
  "holds_session p Fulfilled s \<Longrightarrow>
   holds_session p Fulfilled (fold audio_task ds s)
   \<and> sent_frames (trace (fold audio_task ds s)) = sent_frames (trace s) @ map pcmBlob_of ds"
proof (induction ds arbitrary: s)
  case Nil
  then show ?case by simp
next
  case (Cons d ds)
  note step = audio_task_fulfilled [OF Cons.prems, of d]
  from Cons.IH [OF step(1)] show ?case
    by (simp add: step(2))
qed

lemma fulfil_pending:
  assumes "holds_session p Pending s"
  shows "holds_session p Fulfilled (drain (session_fulfilled p s))"
    and "sent_frames (trace (drain (session_fulfilled p s)))
           = sent_frames (trace s) @ queued_frames (reactions (promises s ! p))"
  using assms
  by (simp_all add: holds_session_def session_fulfilled_def drain_eq sent_frames_append
      sent_reactions comp_def)

lemma fulfil_fulfilled:
  assumes "holds_session p Fulfilled s"
  shows "drain (session_fulfilled p s) = drain s"
    and "holds_session p Fulfilled (drain s)"
    and "trace (drain s) = trace s"
  using assms
  by (simp_all add: holds_session_def session_fulfilled_def drain_eq)

text \<open>
  C9. While the component holds the session promise and the promise has not been
  rejected, every frame the \<open>onaudioprocess\<close> callback produces is encoded without
  error and sent, and the frames are sent in the order of capture. A frame produced while
  the promise is pending is not sent yet: it waits on the promise behind the frames
  queued before it. When the promise is fulfilled the waiting frames are sent in that
  order, and each later frame is sent in its own task: after frames \<open>early\<close>, the
  fulfilment and frames \<open>late\<close>, the frames sent are those sent before, the frames
  that were waiting, then \<open>early\<close> and \<open>late\<close>, each once.
\<close>

theorem frames_sent_in_capture_order:
  assumes "sessionPromiseRef s = Some p" and "p < length (promises s)"
    and "pstate (promises s ! p) \<noteq> Rejected" and "microtasks s = []"
  shows "sent_frames
           (trace (fold audio_task late (drain (session_fulfilled p (fold audio_task early s)))))
         = sent_frames (trace s)
           @ (if pstate (promises s ! p) = Pending
              then queued_frames (reactions (promises s ! p)) else [])
           @ map pcmBlob_of (early @ late)
       \<and> (pstate (promises s ! p) = Pending \<longrightarrow>
            sent_frames (trace (fold audio_task early s)) = sent_frames (trace s)
            \<and> queued_frames (reactions (promises (fold audio_task early s) ! p))
                = queued_frames (reactions (promises s ! p)) @ map pcmBlob_of early)
       \<and> list_all (\<lambda>inputData. createBlob inputData = Some (pcmBlob_of inputData)) (early @ late)"
proof -
  have blobs: "list_all (\<lambda>inputData. createBlob inputData = Some (pcmBlob_of inputData)) (early @ late)"
    by (simp add: list_all_iff createBlob_pcm)
  show ?thesis
  proof (cases "pstate (promises s ! p)")
    case Pending
    then have h: "holds_session p Pending s"
      using assms by (simp add: holds_session_def)
    note e = audio_tasks_pending [OF h, of early]
    note f = fulfil_pending [OF conjunct1 [OF e]]
    note l = audio_tasks_fulfilled [OF f(1), of late]
    show ?thesis
      using e f(2) l blobs Pending by simp
  next
    case Fulfilled
    then have h: "holds_session p Fulfilled s"
      using assms by (simp add: holds_session_def)
    note e = audio_tasks_fulfilled [OF h, of early]
    note f = fulfil_fulfilled [OF conjunct1 [OF e]]
    note l = audio_tasks_fulfilled [OF f(2), of late]
    show ?thesis
      using e l blobs Fulfilled by (simp add: f(1,3))
  next
    case Rejected
    with assms(3) show ?thesis by simp
  qed
qed

theorem frames_sent_in_capture_order_witness:
  "sessionPromiseRef (connecting_state Deferred) = Some 0
   \<and> 0 < length (promises (connecting_state Deferred))
   \<and> pstate (promises (connecting_state Deferred) ! 0) \<noteq> Rejected
   \<and> microtasks (connecting_state Deferred) = []
   \<and> sent_frames (trace (fold audio_task [[Finite (1 / 2)], [Finite 0]] (connecting_state Deferred)))
       = []
   \<and> sent_frames
        (trace (fold audio_task [[Finite 1]]
           (drain (session_fulfilled 0
              (fold audio_task [[Finite (1 / 2)], [Finite 0]] (connecting_state Deferred))))))
       = [pcmBlob_of [Finite (1 / 2)], pcmBlob_of [Finite 0], pcmBlob_of [Finite 1]]"
proof -
  have a: "sessionPromiseRef (connecting_state Deferred) = Some 0"
    "0 < length (promises (connecting_state Deferred))"
    "pstate (promises (connecting_state Deferred) ! 0) \<noteq> Rejected"
    "microtasks (connecting_state Deferred) = []"
    by (simp_all add: connecting_state_eq)
  have b: "pstate (promises (connecting_state Deferred) ! 0) = Pending"
    "reactions (promises (connecting_state Deferred) ! 0) = []"
    "trace (connecting_state Deferred) = [GetUserMedia, LiveConnect 0]"
    by (simp_all add: connecting_state_eq)
  have c: "sent_frames [GetUserMedia, LiveConnect 0] = []" "queued_frames [] = []"
    by (simp_all add: sent_frames_def queued_frames_def)
  show ?thesis
    using frames_sent_in_capture_order [OF a, of "[[Finite 1]]" "[[Finite (1 / 2)], [Finite 0]]"] a
    by (simp only: b c) simp
qed

end
